theory Spec2Isabelle
  imports Main
begin

section \<open>Process configuration (server.ts, lines 7-39)\<close>

text \<open>
  The two environment variables the server reads. A variable that is not set is \<open>None\<close>.
\<close>

record env =
  GOOGLE_GENAI_API_KEY :: "string option"
  USE_MOCK :: "string option"

text \<open>
  JavaScript truthiness of a value that is a string or \<open>undefined\<close>: \<open>undefined\<close> and
  the empty string are falsy, every other string is truthy.
\<close>

definition truthy :: "string option \<Rightarrow> bool" where
  "truthy v = (case v of None \<Rightarrow> False | Some s \<Rightarrow> s \<noteq> [])"

text \<open>The value itself when it is truthy: what \<open>v || d\<close> and \<open>if (v)\<close> go on with.\<close>

definition truthy_val :: "string option \<Rightarrow> string option" where
  "truthy_val v = (case v of None \<Rightarrow> None | Some s \<Rightarrow> if s = [] then None else Some s)"

definition missingEnvVars :: "env \<Rightarrow> string list" where
  "missingEnvVars ev =
     (if truthy (GOOGLE_GENAI_API_KEY ev) then [] else [''GOOGLE_GENAI_API_KEY''])"

datatype startup = Exit nat | Listening

definition start :: "env \<Rightarrow> startup" where
  "start ev = (if length (missingEnvVars ev) > 0 then Exit 1 else Listening)"

definition appName :: string where
  "appName = ''finance_agent_app''"

definition mockMode :: "env \<Rightarrow> bool" where
  "mockMode ev =
     (GOOGLE_GENAI_API_KEY ev = Some ''DUMMY'' \<or> USE_MOCK ev = Some ''1'')"

section \<open>Events of the runner, as the server reads them\<close>

text \<open>
  A content part of an event. Only a text part has a \<open>text\<close> property; the arguments of
  a function call and the value of a function response are kept as name/value pairs.
\<close>

datatype jval = JString string | JNumber int | JBoolean bool

type_synonym args = "(string \<times> jval) list"

datatype part =
    TextPart string
  | FunctionCall string args
  | FunctionResponse string args

fun part_text :: "part \<Rightarrow> string option" where
  "part_text (TextPart t) = Some t"
| "part_text (FunctionCall n a) = None"
| "part_text (FunctionResponse n r) = None"

text \<open>
  The fields of an event that the server reads. \<open>parts = None\<close> stands for an event
  without content or with content without parts.
\<close>

record event =
  author :: string
  parts :: "part list option"
  final :: bool
  errorCode :: "string option"
  errorMessage :: "string option"

text \<open>\<open>adkEvent.content?.parts?.[0]?.text\<close>: the text of the first part, if any.\<close>

definition first_text :: "event \<Rightarrow> string option" where
  "first_text e =
     (case parts e of
        None \<Rightarrow> None
      | Some [] \<Rightarrow> None
      | Some (p # ps) \<Rightarrow> part_text p)"

section \<open>Sessions and the in-memory session service\<close>

text \<open>
  A session is addressed by the triple (application name, user id, session id). It holds
  the scratch state (keys to values) and the history of events.
\<close>

type_synonym triple = "string \<times> string \<times> string"

record session =
  session_id :: string
  session_userId :: string
  state :: "string \<rightharpoonup> string"
  events :: "event list"

type_synonym store = "triple \<rightharpoonup> session"

text \<open>
  The session service is the in-memory one of the runner; it is used by the server through
  two calls. By demo/README.md a session that does not exist cannot be got, and
  \<open>createSession\<close> "overwrites any existing session with the same ID". The service
  keeps a session under the id of the session, and a session that is created with the
  empty id is given a random id (\<open>sessionId || randomUUID()\<close>): it is kept under that id
  and not under the empty one. The random id is an argument of \<open>createSession\<close> here.
  A lookup that misses ends in the catch block of the server either way: by an exception
  of \<open>getSession\<close>, or, when the service answers \<open>undefined\<close>, by the property access
  \<open>session!.id\<close> inside the same try block. Both are the value \<open>None\<close> here.
\<close>

definition getSession :: "store \<Rightarrow> triple \<Rightarrow> session option" where
  "getSession st t = st t"

definition new_session :: "triple \<Rightarrow> (string \<rightharpoonup> string) \<Rightarrow> session" where
  "new_session t s0 =
     \<lparr>session_id = snd (snd t), session_userId = fst (snd t), state = s0, events = []\<rparr>"

text \<open>The triple under which a created session is kept.\<close>

definition kept_under :: "triple \<Rightarrow> string \<Rightarrow> triple" where
  "kept_under t rid = (fst t, fst (snd t), if snd (snd t) = [] then rid else snd (snd t))"

definition createSession ::
  "store \<Rightarrow> triple \<Rightarrow> (string \<rightharpoonup> string) \<Rightarrow> string \<Rightarrow> string + (store \<times> session)" where
  "createSession st t s0 rid =
     Inr (st(kept_under t rid \<mapsto> new_session (kept_under t rid) s0),
          new_session (kept_under t rid) s0)"

text \<open>
  The state of the process between requests: the sessions held by the service, the log
  of the calls the server has made to the runner and its session service, and the random
  ids of the process: \<open>uuids w n\<close> is the \<open>n\<close>-th id that \<open>randomUUID\<close> gives, and
  \<open>drawn w\<close> counts the ids given so far.
\<close>

datatype call =
    GetSession triple
  | CreateSession triple
  | RunAsync string string string

record world =
  sessions :: store
  calls :: "call list"
  uuids :: "nat \<Rightarrow> string"
  drawn :: nat

definition logged :: "call \<Rightarrow> world \<Rightarrow> world" where
  "logged c w = w\<lparr>calls := calls w @ [c]\<rparr>"

text \<open>A creation with the empty session id has used up one random id.\<close>

definition used_uuid :: "triple \<Rightarrow> world \<Rightarrow> world" where
  "used_uuid t w = (if snd (snd t) = [] then w\<lparr>drawn := drawn w + 1\<rparr> else w)"

section \<open>Session resolution (server.ts, lines 88-111)\<close>

text \<open>
  Get the session; when that fails, create it with the empty state; when that fails too,
  the handler answers 500.
\<close>

definition resolve :: "world \<Rightarrow> triple \<Rightarrow> world \<times> (string + session)" where
  "resolve w t =
     (case getSession (sessions w) t of
        Some s \<Rightarrow> (logged (GetSession t) w, Inr s)
      | None \<Rightarrow>
          (case createSession (sessions w) t Map.empty (uuids w (drawn w)) of
             Inl e \<Rightarrow> (logged (CreateSession t) (logged (GetSession t) w), Inl e)
           | Inr (st, s) \<Rightarrow>
               (logged (CreateSession t)
                  (logged (GetSession t) (used_uuid t (w\<lparr>sessions := st\<rparr>))),
                Inr s)))"

section \<open>The chat handler (server.ts, lines 72-114)\<close>

record request =
  message :: "string option"
  userId :: "string option"
  sessionId :: "string option"

text \<open>Destructuring with defaults: a default is taken when the property is missing.\<close>

definition userId_of :: "request \<Rightarrow> string" where
  "userId_of req = (case userId req of None \<Rightarrow> ''default-user'' | Some u \<Rightarrow> u)"

definition sessionId_of :: "request \<Rightarrow> string" where
  "sessionId_of req = (case sessionId req of None \<Rightarrow> ''default-session'' | Some s \<Rightarrow> s)"

definition triple_of :: "request \<Rightarrow> triple" where
  "triple_of req = (appName, userId_of req, sessionId_of req)"

text \<open>
  The value of the variable \<open>session\<close> of the handler. In mock mode it is a fresh object
  and no service is called (the object of the source has no history field; the record
  has an empty one).
\<close>

definition session_for :: "env \<Rightarrow> world \<Rightarrow> triple \<Rightarrow> world \<times> (string + session)" where
  "session_for ev w t =
     (if mockMode ev then (w, Inr (new_session t Map.empty)) else resolve w t)"

text \<open>
  The answer of the handler: a JSON body with a status, or a text stream whose callback
  runs with the user id, the session id and the message of the request.
\<close>

datatype response =
    Json nat string
  | StreamText string string string

definition chat :: "env \<Rightarrow> world \<Rightarrow> request \<Rightarrow> world \<times> response" where
  "chat ev w req =
     (case truthy_val (message req) of
        None \<Rightarrow> (w, Json 400 ''Message is required'')
      | Some msg \<Rightarrow>
          (case session_for ev w (triple_of req) of
             (w1, Inl e) \<Rightarrow> (w1, Json 500 ''Failed to create or retrieve session'')
           | (w1, Inr s) \<Rightarrow> (w1, StreamText (userId_of req) (sessionId_of req) msg)))"

section \<open>Concurrent requests\<close>

text \<open>
  The server resolves a session in two awaited calls, and an await is a point where
  another request may run. So each call is one step of a request, and the position of a
  request between its steps is a program counter: before \<open>getSession\<close>, before
  \<open>createSession\<close> (the lookup has missed), or done with the result.
\<close>

datatype pc =
    AtGet
  | AtCreate
  | Got "string + session"

fun resolve_step :: "triple \<Rightarrow> world \<times> pc \<Rightarrow> world \<times> pc" where
  "resolve_step t (w, AtGet) =
     (case getSession (sessions w) t of
        Some s \<Rightarrow> (logged (GetSession t) w, Got (Inr s))
      | None \<Rightarrow> (logged (GetSession t) w, AtCreate))"
| "resolve_step t (w, AtCreate) =
     (case createSession (sessions w) t Map.empty (uuids w (drawn w)) of
        Inl e \<Rightarrow> (logged (CreateSession t) w, Got (Inl e))
      | Inr (st, s) \<Rightarrow>
          (logged (CreateSession t) (used_uuid t (w\<lparr>sessions := st\<rparr>)), Got (Inr s)))"
| "resolve_step t (w, Got r) = (w, Got r)"

text \<open>
  Modelled from the spec: \<open>setState(triple, key, value)\<close> of the Session Store (4.1), by
  which a tool of a running turn writes the scratch state of a session. The tools are
  defined in demo/agent.ts, which is not among the sources; a write to a triple that has
  no session changes nothing.
\<close>

definition setState :: "store \<Rightarrow> triple \<Rightarrow> string \<Rightarrow> string \<Rightarrow> store" where
  "setState st t k v =
     (case st t of None \<Rightarrow> st | Some s \<Rightarrow> st(t \<mapsto> s\<lparr>state := (state s)(k \<mapsto> v)\<rparr>))"

text \<open>
  Modelled from the spec: \<open>getState(triple)\<close> of the Session Store (4.1), the read
  that goes with \<open>setState\<close>; it is missing with demo/agent.ts in the same way.
\<close>

definition getState :: "store \<Rightarrow> triple \<Rightarrow> string \<Rightarrow> string option" where
  "getState st t k = (case st t of None \<Rightarrow> None | Some s \<Rightarrow> state s k)"

text \<open>
  A schedule is the order in which things happen in the process: request \<open>i\<close> takes its
  next step, or the turn of a request that already has its session writes the state.
  All requests of a schedule are for the same triple.
\<close>

datatype action =
    Advance nat
  | SetState string string

fun run_schedule :: "triple \<Rightarrow> action list \<Rightarrow> world \<times> pc list \<Rightarrow> world \<times> pc list" where
  "run_schedule t [] c = c"
| "run_schedule t (Advance i # acts) (w, ps) =
     (if i < length ps
      then (case resolve_step t (w, ps ! i) of
              (w1, p) \<Rightarrow> run_schedule t acts (w1, ps[i := p]))
      else run_schedule t acts (w, ps))"
| "run_schedule t (SetState k v # acts) (w, ps) =
     run_schedule t acts (w\<lparr>sessions := setState (sessions w) t k v\<rparr>, ps)"

text \<open>The state of a session after the writes of a schedule, in their order.\<close>

fun apply_writes :: "action list \<Rightarrow> (string \<rightharpoonup> string) \<Rightarrow> (string \<rightharpoonup> string)" where
  "apply_writes [] m = m"
| "apply_writes (Advance i # acts) m = apply_writes acts m"
| "apply_writes (SetState k v # acts) m = apply_writes acts (m(k \<mapsto> v))"

text \<open>
  A request has not asked yet, or it has been given the session \<open>s\<close> (in the state it
  had then); it has not missed and has no error.
\<close>

fun holds_session :: "session \<Rightarrow> pc \<Rightarrow> bool" where
  "holds_session s AtGet = True"
| "holds_session s AtCreate = False"
| "holds_session s (Got (Inl e)) = False"
| "holds_session s (Got (Inr s')) =
     (session_id s' = session_id s \<and> session_userId s' = session_userId s
      \<and> events s' = events s)"

text \<open>How many times the server has called \<open>createSession\<close> for a triple.\<close>

definition created :: "triple \<Rightarrow> world \<Rightarrow> nat" where
  "created t w = length (filter (\<lambda>c. c = CreateSession t) (calls w))"

text \<open>\<open>n\<close> requests for the same triple, each resolved before the next one starts.\<close>

fun resolve_all :: "nat \<Rightarrow> triple \<Rightarrow> world \<Rightarrow> world \<times> (string + session) list" where
  "resolve_all 0 t w = (w, [])"
| "resolve_all (Suc n) t w =
     (case resolve w t of
        (w1, r) \<Rightarrow> (case resolve_all n t w1 of (w2, rs) \<Rightarrow> (w2, r # rs)))"

section \<open>The stream callback (server.ts, lines 114-182)\<close>

text \<open>
  What \<open>runAsync\<close> returns is an asynchronous generator: a lazy sequence of events that
  ends by returning or by throwing, or does not end at all.
\<close>

text \<open>
  What a generator throws, as the catch block of the callback reads it: \<open>null\<close> or
  \<open>undefined\<close>, a value with a message (an \<open>Error\<close>), or any other value, whose
  \<open>message\<close> property is \<open>undefined\<close>.
\<close>

datatype thrown =
    Nullish
  | HasMessage string
  | NoMessage

codatatype gen =
    Yield event gen
  | Return
  | Throw thrown

primrec gen_of :: "event list \<Rightarrow> thrown option \<Rightarrow> gen" where
  "gen_of [] thrown = (case thrown of None \<Rightarrow> Return | Some m \<Rightarrow> Throw m)"
| "gen_of (e # es) thrown = Yield e (gen_of es thrown)"

primcorec forever :: "event \<Rightarrow> gen" where
  "forever e = Yield e (forever e)"

text \<open>
  The state of one run of the callback: the chunks passed to \<open>stream.write\<close>, in
  order; the counter \<open>eventCount\<close>; whether the caller has signalled the abort; and
  whether the callback has ended by an exception of its own (its promise is rejected).
  Console output is not part of the state. \<open>stream.write\<close> of the streaming helper
  and \<open>createUserContent\<close> are taken to return normally; the delays between the mock
  chunks are left out.
\<close>

record turn =
  writes :: "string list"
  eventCount :: nat
  aborted :: bool
  rejected :: bool

definition init_turn :: turn where
  "init_turn = \<lparr>writes = [], eventCount = 0, aborted = False, rejected = False\<rparr>"

definition stream_write :: "string \<Rightarrow> turn \<Rightarrow> turn" where
  "stream_write c st = st\<lparr>writes := writes st @ [c]\<rparr>"

text \<open>
  The callback registered with \<open>stream.onAbort\<close> only logs; with the console left out it
  changes nothing. The flag records that the signal has arrived.
\<close>

definition onAbort :: "turn \<Rightarrow> turn" where
  "onAbort st = st"

definition arrive :: "nat option \<Rightarrow> nat \<Rightarrow> turn \<Rightarrow> turn" where
  "arrive ab k st = (if ab = Some k then onAbort (st\<lparr>aborted := True\<rparr>) else st)"

definition adk_error_chunk :: "string \<Rightarrow> string \<Rightarrow> string" where
  "adk_error_chunk code msg = [CHR 0x0A] @ ''[ADK ERROR '' @ code @ ''] '' @ msg @ [CHR 0x0A]"

definition exception_chunk :: "string \<Rightarrow> string" where
  "exception_chunk msg = [CHR 0x0A] @ ''[Error: '' @ msg @ '']''"

text \<open>
  The catch block (lines 173-181): it reads \<open>err.message\<close> for the log and for the chunk.
  On \<open>null\<close> or \<open>undefined\<close> that read throws inside the catch block, before anything
  is written; on a value without a message the template gives \<open>undefined\<close>.
\<close>

definition catch_block :: "thrown \<Rightarrow> turn \<Rightarrow> turn" where
  "catch_block x st =
     (case x of
        Nullish \<Rightarrow> st\<lparr>rejected := True\<rparr>
      | HasMessage m \<Rightarrow> stream_write (exception_chunk m) st
      | NoMessage \<Rightarrow> stream_write (exception_chunk ''undefined'') st)"

definition errMsg :: "event \<Rightarrow> string" where
  "errMsg e = (case truthy_val (errorMessage e) of None \<Rightarrow> ''Unknown ADK error'' | Some m \<Rightarrow> m)"

text \<open>
  The loop \<open>for await (const event of globalRunner.runAsync(...))\<close> inside the try block,
  with the catch block as the branch of a generator that throws. The loop has no bound of
  its own, so the model runs on fuel: \<open>None\<close> is a loop that has not ended within the fuel.
  \<open>ab = Some k\<close> is an abort signalled while the \<open>k\<close>-th event is handled.
\<close>

fun stream_loop :: "nat \<Rightarrow> nat option \<Rightarrow> gen \<Rightarrow> turn \<Rightarrow> turn option" where
  "stream_loop 0 ab g st = None"
| "stream_loop (Suc n) ab g st =
     (case g of
        Return \<Rightarrow> Some st
      | Throw x \<Rightarrow> Some (catch_block x st)
      | Yield e g' \<Rightarrow>
          (let st1 = arrive ab (eventCount st + 1) (st\<lparr>eventCount := eventCount st + 1\<rparr>)
           in case truthy_val (errorCode e) of
                Some code \<Rightarrow> Some (stream_write (adk_error_chunk code (errMsg e)) st1)
              | None \<Rightarrow>
                  (case truthy_val (first_text e) of
                     Some txt \<Rightarrow> stream_loop n ab g' (stream_write txt st1)
                   | None \<Rightarrow> if final e then Some st1 else stream_loop n ab g' st1)))"

definition mock_chunks :: "string list" where
  "mock_chunks =
     [''Hello! This is a mock agent response.'' @ [CHR 0x0A],
      ''I can simulate analysis, budgeting, and reports for testing.'' @ [CHR 0x0A],
      ''Try: '' @ [CHR 0x27] @ ''Analyze transactions: ...'' @ [CHR 0x27] @ '' or ''
        @ [CHR 0x27] @ ''Set a budget of $100 for dining.'' @ [CHR 0x27] @ [CHR 0x0A]]"

text \<open>
  In mock mode the callback writes its three chunks and returns; \<open>ab = Some k\<close> is then
  an abort signalled during the \<open>k\<close>-th write.
\<close>

fun mock_writes :: "nat option \<Rightarrow> string list \<Rightarrow> nat \<Rightarrow> turn \<Rightarrow> turn" where
  "mock_writes ab [] k st = st"
| "mock_writes ab (c # cs) k st = mock_writes ab cs (k + 1) (stream_write c (arrive ab k st))"

text \<open>
  The callback. The runner is a parameter: from the sessions, the user id, the session id
  and the message it gives the generator of the turn. In mock mode there is no runner.
\<close>

definition streamText_callback ::
  "env \<Rightarrow> (store \<Rightarrow> string \<Rightarrow> string \<Rightarrow> string \<Rightarrow> gen) \<Rightarrow> nat \<Rightarrow> nat option \<Rightarrow>
   world \<Rightarrow> string \<Rightarrow> string \<Rightarrow> string \<Rightarrow> (world \<times> turn) option" where
  "streamText_callback ev runAsync fuel ab w uid sid msg =
     (if mockMode ev then Some (w, mock_writes ab mock_chunks 1 init_turn)
      else
        (case stream_loop fuel ab (runAsync (sessions w) uid sid msg) init_turn of
           None \<Rightarrow> None
         | Some r \<Rightarrow> Some (logged (RunAsync uid sid msg) w, r)))"

text \<open>A request from its arrival to the end of its stream.\<close>

datatype outcome =
    Answered nat string
  | Streamed turn
  | Unended

definition serve ::
  "env \<Rightarrow> (store \<Rightarrow> string \<Rightarrow> string \<Rightarrow> string \<Rightarrow> gen) \<Rightarrow> nat \<Rightarrow> nat option \<Rightarrow>
   world \<Rightarrow> request \<Rightarrow> world \<times> outcome" where
  "serve ev runAsync fuel ab w req =
     (case chat ev w req of
        (w1, Json status body) \<Rightarrow> (w1, Answered status body)
      | (w1, StreamText uid sid msg) \<Rightarrow>
          (case streamText_callback ev runAsync fuel ab w1 uid sid msg of
             None \<Rightarrow> (logged (RunAsync uid sid msg) w1, Unended)
           | Some (w2, r) \<Rightarrow> (w2, Streamed r)))"

text \<open>What the output chunk of an error is to look like according to the specification.\<close>

definition spec_error_chunk :: "string \<Rightarrow> string \<Rightarrow> string" where
  "spec_error_chunk code msg = ''[ERROR '' @ code @ ''] '' @ msg"

text \<open>
  For a generator that ends: the event at which the loop breaks, the texts written before
  it, and the chunk written at the end.
\<close>

definition stops :: "event \<Rightarrow> bool" where
  "stops e = (truthy (errorCode e) \<or> (\<not> truthy (first_text e) \<and> final e))"

definition forwarded_texts :: "event list \<Rightarrow> string list" where
  "forwarded_texts es =
     List.map_filter (\<lambda>e. truthy_val (first_text e)) (takeWhile (\<lambda>e. \<not> stops e) es)"

definition thrown_chunk :: "thrown option \<Rightarrow> string list" where
  "thrown_chunk thrown =
     (case thrown of
        None \<Rightarrow> []
      | Some Nullish \<Rightarrow> []
      | Some (HasMessage m) \<Rightarrow> [exception_chunk m]
      | Some NoMessage \<Rightarrow> [exception_chunk ''undefined''])"

definition terminal :: "event list \<Rightarrow> thrown option \<Rightarrow> string list" where
  "terminal es thrown =
     (case dropWhile (\<lambda>e. \<not> stops e) es of
        [] \<Rightarrow> thrown_chunk thrown
      | e # rest \<Rightarrow>
          (case truthy_val (errorCode e) of
             Some code \<Rightarrow> [adk_error_chunk code (errMsg e)]
           | None \<Rightarrow> []))"

definition consumed :: "event list \<Rightarrow> nat" where
  "consumed es = min (length es) (Suc (length (takeWhile (\<lambda>e. \<not> stops e) es)))"

section \<open>Tool Registry and Turn Driver\<close>

text \<open>
  The server hands the agent of demo/agent.ts to the runner and reads the events that
  come back; the tools, their schemas and the dispatch of tool calls are in demo/agent.ts
  and in the runner, which are not among the sources. The definitions of this section
  follow the specification instead.
\<close>

text \<open>
  Modelled from the spec: the input schema of a Tool Definition (3), "named, typed,
  required/optional fields". The schemas themselves are in demo/agent.ts, which is missing.
\<close>

datatype ftype = TString | TNumber | TBoolean

text \<open>
  Modelled from the spec: one field of an input schema (3): its name, its type and
  whether it is required. Missing with demo/agent.ts.
\<close>

record field =
  field_name :: string
  field_type :: ftype
  required :: bool

text \<open>
  Modelled from the spec: a value has the type that a "typed" field (3) declares.
  Missing with demo/agent.ts.
\<close>

fun has_type :: "jval \<Rightarrow> ftype \<Rightarrow> bool" where
  "has_type (JString s) ty = (ty = TString)"
| "has_type (JNumber n) ty = (ty = TNumber)"
| "has_type (JBoolean b) ty = (ty = TBoolean)"

text \<open>
  Modelled from the spec: the validation of the arguments against the declared schema
  (4.2), "a pure data-validation step independent of execution" (9); the validator is
  missing with demo/agent.ts. A required field must be there, and a field that is
  there must have its declared type; the specification says nothing about arguments
  that the schema does not name, and they are let through.
\<close>

definition field_ok :: "args \<Rightarrow> field \<Rightarrow> bool" where
  "field_ok a f =
     (case map_of a (field_name f) of
        None \<Rightarrow> \<not> required f
      | Some v \<Rightarrow> has_type v (field_type f))"

text \<open>
  Modelled from the spec: the arguments match the schema (4.2) when every field of the
  schema is satisfied. Missing with demo/agent.ts.
\<close>

definition validate :: "field list \<Rightarrow> args \<Rightarrow> bool" where
  "validate sch a = list_all (field_ok a) sch"

text \<open>
  Modelled from the spec: a Tool Definition (3) with its execution function
  \<open>(args, session) -> result | fails\<close> over the state mapping of the session; the tools are
  missing with demo/agent.ts. \<open>Inl\<close> is a failure with its message, which leaves the
  state as it was.
\<close>

record tool =
  tool_name :: string
  tool_schema :: "field list"
  execute :: "args \<Rightarrow> (string \<rightharpoonup> string) \<Rightarrow> string + (string \<times> (string \<rightharpoonup> string))"

text \<open>
  Modelled from the spec: the failure \<open>DuplicateTool\<close> of \<open>register\<close> (4.2). Missing
  with demo/agent.ts.
\<close>

datatype registry_error = DuplicateTool

text \<open>
  Modelled from the spec: \<open>register(definition)\<close> of the Tool Registry (4.2), missing
  with demo/agent.ts.
\<close>

definition register :: "tool \<Rightarrow> tool list \<Rightarrow> registry_error + tool list" where
  "register d reg =
     (if tool_name d \<in> set (map tool_name reg) then Inl DuplicateTool else Inr (reg @ [d]))"

text \<open>
  Modelled from the spec: the lookup of a tool by its name, "unique within the agent"
  (3). Missing with demo/agent.ts.
\<close>

definition find_tool :: "tool list \<Rightarrow> string \<Rightarrow> tool option" where
  "find_tool reg n = find (\<lambda>d. tool_name d = n) reg"

text \<open>
  Modelled from the spec: the errors of a tool invocation (4.2, 7): the schema mismatch
  and the failure inside the tool function, and the name that is not registered.
  Missing with demo/agent.ts and the runner.
\<close>

datatype tool_error =
    SchemaValidationError
  | ExecutionFailed string
  | NoSuchTool

text \<open>
  Modelled from the spec: what an invocation gives back to the model (4.2): the result
  of the tool or a tool error. Missing with demo/agent.ts and the runner.
\<close>

datatype tool_event =
    ToolResult string
  | ToolError tool_error

text \<open>
  Modelled from the spec: the outcome of \<open>invoke\<close> (4.2) with the state of the session
  after it. Missing with demo/agent.ts and the runner.
\<close>

record invocation =
  tool_outcome :: tool_event
  state_after :: "string \<rightharpoonup> string"

text \<open>
  Modelled from the spec: \<open>invoke(name, args, session)\<close> of the Tool Registry (4.2),
  missing with demo/agent.ts and the runner: validate, then execute against the state of
  the session, then return the result; a mismatch and a failure of the execution are both
  given back as a tool error. The specification does not say what a name that is not
  registered gives; here it is a tool error as well.
\<close>

definition invoke :: "tool list \<Rightarrow> string \<Rightarrow> args \<Rightarrow> (string \<rightharpoonup> string) \<Rightarrow> invocation" where
  "invoke reg n a st =
     (case find_tool reg n of
        None \<Rightarrow> \<lparr>tool_outcome = ToolError NoSuchTool, state_after = st\<rparr>
      | Some d \<Rightarrow>
          if \<not> validate (tool_schema d) a
          then \<lparr>tool_outcome = ToolError SchemaValidationError, state_after = st\<rparr>
          else
            (case execute d a st of
               Inl m \<Rightarrow> \<lparr>tool_outcome = ToolError (ExecutionFailed m), state_after = st\<rparr>
             | Inr (r, st') \<Rightarrow> \<lparr>tool_outcome = ToolResult r, state_after = st'\<rparr>))"

text \<open>
  Modelled from the spec: the Turn Event (3), the output of the model collaborator for
  one turn; the runner that produces these events is not among the sources.
\<close>

datatype turn_event =
    Text string
  | ToolCall string args
  | ToolEcho string
  | Final
  | ErrorMarker string string

text \<open>
  Modelled from the spec: how the Turn Driver ends a turn (4.3, 7): \<open>Final\<close>,
  \<open>Errored\<close> with the code and message of the error event, or the failure
  \<open>ToolLoopExceeded\<close> at the iteration ceiling. The runner is missing.
\<close>

datatype turn_end =
    FinalState
  | Errored string string
  | ToolLoopExceeded

text \<open>
  Modelled from the spec: what the Turn Driver does on an event (4.3): it forwards a
  text to the Stream Adapter or dispatches a tool call. The runner is missing.
\<close>

datatype step =
    Emitted string
  | Dispatched string args

text \<open>
  Modelled from the spec: a turn of the history (3), "user message + agent response +
  any tool-call records". The runner that writes it is missing.
\<close>

record turn_record =
  user_message :: string
  agent_response :: string
  tool_calls :: "(string \<times> args) list"

text \<open>
  Modelled from the spec: what the Turn Driver holds during a turn (4.3): what it has
  done so far, the tool results appended to the context, the accumulated content, the
  state mapping of the session, and the number of tool dispatches of the turn. The runner
  is missing.
\<close>

record driver =
  trace :: "step list"
  tool_context :: "tool_event list"
  accumulated :: string
  scratch :: "string \<rightharpoonup> string"
  dispatch_count :: nat

text \<open>
  Modelled from the spec: the state machine of the Turn Driver (4.3), which is the
  runner and so not among the sources. Events are taken in arrival order: a text event is
  forwarded to the Stream Adapter and added to the content of the turn; a tool call goes
  through \<open>invoke\<close> and its result or tool error is appended to the context; a final
  event or the end of the sequence is \<open>Final\<close>; an error event is \<open>Errored\<close>. The
  tool loop has the configured ceiling \<open>cap\<close>: after \<open>cap\<close> dispatches the next tool
  call is not dispatched and the turn fails with \<open>ToolLoopExceeded\<close>.
\<close>

fun drive :: "nat \<Rightarrow> tool list \<Rightarrow> turn_event list \<Rightarrow> driver \<Rightarrow> driver \<times> turn_end" where
  "drive cap reg [] d = (d, FinalState)"
| "drive cap reg (Text t # evs) d =
     drive cap reg evs (d\<lparr>trace := trace d @ [Emitted t], accumulated := accumulated d @ t\<rparr>)"
| "drive cap reg (ToolCall n a # evs) d =
     (if cap \<le> dispatch_count d then (d, ToolLoopExceeded)
      else
        drive cap reg evs
          (d\<lparr>trace := trace d @ [Dispatched n a],
             tool_context := tool_context d @ [tool_outcome (invoke reg n a (scratch d))],
             scratch := state_after (invoke reg n a (scratch d)),
             dispatch_count := dispatch_count d + 1\<rparr>))"
| "drive cap reg (ToolEcho r # evs) d = drive cap reg evs d"
| "drive cap reg (Final # evs) d = (d, FinalState)"
| "drive cap reg (ErrorMarker c m # evs) d = (d, Errored c m)"

text \<open>
  Modelled from the spec: the Session of the data model (3), an ordered sequence of
  turns and a state mapping. The session of the runner is missing with it.
\<close>

record spec_session =
  turns :: "turn_record list"
  session_scratch :: "string \<rightharpoonup> string"

text \<open>
  Modelled from the spec: the tool-call records of a turn (3), in the order of
  dispatch. The runner is missing.
\<close>

definition dispatches :: "step list \<Rightarrow> (string \<times> args) list" where
  "dispatches tr = List.map_filter (\<lambda>s. case s of Dispatched n a \<Rightarrow> Some (n, a) | Emitted t \<Rightarrow> None) tr"

text \<open>
  Modelled from the spec: the texts forwarded to the Stream Adapter during a turn
  (4.3), in order. The runner is missing.
\<close>

definition emitted :: "step list \<Rightarrow> string list" where
  "emitted tr = List.map_filter (\<lambda>s. case s of Emitted t \<Rightarrow> Some t | Dispatched n a \<Rightarrow> None) tr"

text \<open>
  Modelled from the spec: the Turn Driver at the start of a turn (4.3, \<open>Submitted\<close>),
  with the state of the session. The runner is missing.
\<close>

definition init_driver :: "(string \<rightharpoonup> string) \<Rightarrow> driver" where
  "init_driver st =
     \<lparr>trace = [], tool_context = [], accumulated = [], scratch = st, dispatch_count = 0\<rparr>"

text \<open>
  Modelled from the spec: one turn on a session (4.3, \<open>Final\<close>; 7): in the state
  \<open>Final\<close> the accumulated content becomes the turn record appended to the history; a
  turn that ends otherwise appends nothing; what the tools wrote to the state stays
  either way. The runner that does this is missing.
\<close>

definition run_turn ::
  "nat \<Rightarrow> tool list \<Rightarrow> spec_session \<Rightarrow> string \<Rightarrow> turn_event list \<Rightarrow>
   spec_session \<times> driver \<times> turn_end" where
  "run_turn cap reg sess msg evs =
     (case drive cap reg evs (init_driver (session_scratch sess)) of
        (d, FinalState) \<Rightarrow>
          (sess\<lparr>turns := turns sess @
                   [\<lparr>user_message = msg, agent_response = accumulated d,
                     tool_calls = dispatches (trace d)\<rparr>],
                session_scratch := scratch d\<rparr>, d, FinalState)
      | (d, Errored c m) \<Rightarrow> (sess\<lparr>session_scratch := scratch d\<rparr>, d, Errored c m)
      | (d, ToolLoopExceeded) \<Rightarrow> (sess\<lparr>session_scratch := scratch d\<rparr>, d, ToolLoopExceeded))"

text \<open>The events of a turn in the shape in which the server reads them from the runner.\<close>

fun adk_event :: "turn_event \<Rightarrow> event" where
  "adk_event (Text t) =
     \<lparr>author = ''model'', parts = Some [TextPart t], final = False,
      errorCode = None, errorMessage = None\<rparr>"
| "adk_event (ToolCall n a) =
     \<lparr>author = ''model'', parts = Some [FunctionCall n a], final = False,
      errorCode = None, errorMessage = None\<rparr>"
| "adk_event (ToolEcho r) =
     \<lparr>author = ''model'', parts = Some [FunctionResponse r []], final = False,
      errorCode = None, errorMessage = None\<rparr>"
| "adk_event Final =
     \<lparr>author = ''model'', parts = None, final = True,
      errorCode = None, errorMessage = None\<rparr>"
| "adk_event (ErrorMarker c m) =
     \<lparr>author = ''model'', parts = None, final = False,
      errorCode = Some c, errorMessage = Some m\<rparr>"

text \<open>What the Turn Driver does on an event that it handles.\<close>

fun step_of :: "turn_event \<Rightarrow> step option" where
  "step_of (Text t) = Some (Emitted t)"
| "step_of (ToolCall n a) = Some (Dispatched n a)"
| "step_of e = None"

text \<open>
  The events that the Turn Driver handles, with \<open>n\<close> dispatches made before: the events
  up to the final event, the error event or the tool call over the ceiling.
\<close>

fun handled :: "nat \<Rightarrow> nat \<Rightarrow> turn_event list \<Rightarrow> turn_event list" where
  "handled cap n [] = []"
| "handled cap n (Text t # evs) = Text t # handled cap n evs"
| "handled cap n (ToolCall x a # evs) =
     (if cap \<le> n then [] else ToolCall x a # handled cap (Suc n) evs)"
| "handled cap n (ToolEcho r # evs) = ToolEcho r # handled cap n evs"
| "handled cap n (Final # evs) = []"
| "handled cap n (ErrorMarker c m # evs) = []"

text \<open>
  How a turn ends, read off its events, the ceiling and the number of dispatches made
  before; the tools do not occur in it.
\<close>

fun turn_end_of :: "nat \<Rightarrow> nat \<Rightarrow> turn_event list \<Rightarrow> turn_end" where
  "turn_end_of cap n [] = FinalState"
| "turn_end_of cap n (Text t # evs) = turn_end_of cap n evs"
| "turn_end_of cap n (ToolCall x a # evs) =
     (if cap \<le> n then ToolLoopExceeded else turn_end_of cap (Suc n) evs)"
| "turn_end_of cap n (ToolEcho r # evs) = turn_end_of cap n evs"
| "turn_end_of cap n (Final # evs) = FinalState"
| "turn_end_of cap n (ErrorMarker c m # evs) = Errored c m"

text \<open>
  Two tools have the same interface when they have the same name and the same schema;
  their functions may differ.
\<close>

definition same_interface :: "tool \<Rightarrow> tool \<Rightarrow> bool" where
  "same_interface d d' = (tool_name d = tool_name d' \<and> tool_schema d = tool_schema d')"

text \<open>The arguments of a call violate the schema of the tool that the call names.\<close>

definition violates :: "tool list \<Rightarrow> string \<Rightarrow> args \<Rightarrow> bool" where
  "violates reg n a =
     (case find_tool reg n of None \<Rightarrow> False | Some d \<Rightarrow> \<not> validate (tool_schema d) a)"

fun call_violates :: "tool list \<Rightarrow> turn_event \<Rightarrow> bool" where
  "call_violates reg (ToolCall n a) = violates reg n a"
| "call_violates reg e = True"

section \<open>Sample data\<close>

definition sample_uuids :: "nat \<Rightarrow> string" where
  "sample_uuids n = ''uuid-'' @ replicate n (CHR ''x'')"

definition empty_world :: world where
  "empty_world = \<lparr>sessions = Map.empty, calls = [], uuids = sample_uuids, drawn = 0\<rparr>"


definition demo_triple :: triple where
  "demo_triple = (appName, ''demo-user'', ''demo-session-001'')"

definition budget_world :: world where
  "budget_world =
     \<lparr>sessions = [demo_triple \<mapsto> new_session demo_triple [''budget'' \<mapsto> ''100'']],
      calls = [], uuids = sample_uuids, drawn = 0\<rparr>"


definition default_triple :: triple where
  "default_triple = (''finance_agent_app'', ''default-user'', ''default-session'')"

definition default_world :: world where
  "default_world =
     \<lparr>sessions = [default_triple \<mapsto> new_session default_triple [''budget'' \<mapsto> ''100'']],
      calls = [], uuids = sample_uuids, drawn = 0\<rparr>"

definition tool_call_event :: event where
  "tool_call_event = adk_event (ToolCall ''analyze_transactions'' [])"

definition set_budget_goal :: tool where
  "set_budget_goal =
     \<lparr>tool_name = ''set_budget_goal'',
      tool_schema =
        [\<lparr>field_name = ''category'', field_type = TString, required = True\<rparr>,
         \<lparr>field_name = ''limit'', field_type = TNumber, required = True\<rparr>],
      execute = (\<lambda>a st. Inr (''goal stored'', st(''budgetGoals'' \<mapsto> ''dining'')))\<rparr>"

definition calculate_budget_status :: tool where
  "calculate_budget_status =
     \<lparr>tool_name = ''calculate_budget_status'',
      tool_schema = [],
      execute =
        (\<lambda>a st. case st ''budgetGoals'' of
                   None \<Rightarrow> Inl ''no budget goal in the session''
                 | Some g \<Rightarrow> Inr (''on track'', st(''status'' \<mapsto> g)))\<rparr>"

definition sample_registry :: "tool list" where
  "sample_registry = [set_budget_goal, calculate_budget_status]"

definition other_bodies :: "tool list" where
  "other_bodies =
     [set_budget_goal\<lparr>execute := (\<lambda>a st. Inr (''ran'', st(''ran'' \<mapsto> ''set_budget_goal'')))\<rparr>,
      calculate_budget_status\<lparr>execute := (\<lambda>a st. Inl ''always fails'')\<rparr>]"

definition goal_args :: args where
  "goal_args = [(''category'', JString ''dining''), (''limit'', JNumber 100)]"

definition two_texts_event :: event where
  "two_texts_event =
     \<lparr>author = ''model'', parts = Some [TextPart ''Hello, '', TextPart ''world''],
      final = False, errorCode = None, errorMessage = None\<rparr>"

definition text_after_call_event :: event where
  "text_after_call_event =
     \<lparr>author = ''model'', parts = Some [FunctionCall ''set_budget_goal'' [], TextPart ''Done.''],
      final = False, errorCode = None, errorMessage = None\<rparr>"

definition empty_session :: spec_session where
  "empty_session = \<lparr>turns = [], session_scratch = Map.empty\<rparr>"

definition dummy_env :: env where
  "dummy_env = \<lparr>GOOGLE_GENAI_API_KEY = Some ''DUMMY'', USE_MOCK = None\<rparr>"

definition live_env :: env where
  "live_env = \<lparr>GOOGLE_GENAI_API_KEY = Some ''a-key'', USE_MOCK = None\<rparr>"

definition bare_request :: "string option \<Rightarrow> request" where
  "bare_request m = \<lparr>message = m, userId = None, sessionId = None\<rparr>"

definition replay :: "gen \<Rightarrow> store \<Rightarrow> string \<Rightarrow> string \<Rightarrow> string \<Rightarrow> gen" where
  "replay g st uid sid msg = g"

section \<open>Basic facts\<close>

lemma sessions_logged [simp]: "sessions (logged c w) = sessions w"
  by (simp add: logged_def)

lemma calls_logged [simp]: "calls (logged c w) = calls w @ [c]"
  by (simp add: logged_def)

lemma uuids_logged [simp]: "uuids (logged c w) = uuids w"
  by (simp add: logged_def)

lemma drawn_logged [simp]: "drawn (logged c w) = drawn w"
  by (simp add: logged_def)

lemma kept_under_named: "snd (snd t) \<noteq> [] \<Longrightarrow> kept_under t rid = t"
  by (cases t) (simp add: kept_under_def)

lemma used_uuid_named: "snd (snd t) \<noteq> [] \<Longrightarrow> used_uuid t w = w"
  by (simp add: used_uuid_def)

lemma sessions_used_uuid [simp]: "sessions (used_uuid t w) = sessions w"
  by (simp add: used_uuid_def)

lemma calls_used_uuid [simp]: "calls (used_uuid t w) = calls w"
  by (simp add: used_uuid_def)

lemma truthy_val_truthy: "truthy v = (truthy_val v \<noteq> None)"
  by (simp add: truthy_def truthy_val_def split: option.splits)

lemma resolve_absent:
  "sessions w t = None \<Longrightarrow> snd (snd t) \<noteq> [] \<Longrightarrow>
   resolve w t =
     (logged (CreateSession t)
        (logged (GetSession t) (w\<lparr>sessions := (sessions w)(t \<mapsto> new_session t Map.empty)\<rparr>)),
      Inr (new_session t Map.empty))"
  by (simp add: resolve_def getSession_def createSession_def kept_under_named used_uuid_named)

lemma resolve_present:
  "sessions w t = Some s \<Longrightarrow> resolve w t = (logged (GetSession t) w, Inr s)"
  by (simp add: resolve_def getSession_def)

lemma created_logged [simp]:
  "created t (logged c w) = created t w + (if c = CreateSession t then 1 else 0)"
  by (simp add: created_def)

lemma created_sessions_update [simp]: "created t (w\<lparr>sessions := st\<rparr>) = created t w"
  by (simp add: created_def)

lemma created_used_uuid [simp]: "created t (used_uuid t' w) = created t w"
  by (simp add: created_def)

lemma resolve_steps:
  "resolve_step t (resolve_step t (w, AtGet)) = (fst (resolve w t), Got (snd (resolve w t)))"
  by (cases "sessions w t")
     (simp_all add: resolve_def getSession_def createSession_def logged_def used_uuid_def)

lemma resolve_all_present:
  "sessions w t = Some s \<Longrightarrow>
   created t (fst (resolve_all n t w)) = created t w
   \<and> snd (resolve_all n t w) = replicate n (Inr s)
   \<and> sessions (fst (resolve_all n t w)) = sessions w"
proof (induction n arbitrary: w)
  case 0
  then show ?case by simp
next
  case (Suc n)
  have "sessions (logged (GetSession t) w) t = Some s" using Suc.prems by simp
  from Suc.IH[OF this] show ?case using Suc.prems
    by (auto simp: resolve_present split: prod.splits)
qed

lemma resolve_all_absent:
  assumes "sessions w t = None" and "snd (snd t) \<noteq> []"
  shows "created t (fst (resolve_all (Suc n) t w)) = created t w + 1
   \<and> snd (resolve_all (Suc n) t w) = replicate (Suc n) (Inr (new_session t Map.empty))
   \<and> sessions (fst (resolve_all (Suc n) t w)) = (sessions w)(t \<mapsto> new_session t Map.empty)"
proof -
  let ?w1 = "logged (CreateSession t)
        (logged (GetSession t) (w\<lparr>sessions := (sessions w)(t \<mapsto> new_session t Map.empty)\<rparr>))"
  have "sessions ?w1 t = Some (new_session t Map.empty)" by simp
  from resolve_all_present[OF this, of n] show ?thesis using assms
    by (auto simp: resolve_absent split: prod.splits)
qed

lemma mock_writes_writes:
  "writes (mock_writes ab cs k st) = writes st @ cs"
  by (induction cs arbitrary: k st) (simp_all add: stream_write_def arrive_def onAbort_def)

lemma mock_writes_eventCount:
  "eventCount (mock_writes ab cs k st) = eventCount st"
  by (induction cs arbitrary: k st) (simp_all add: stream_write_def arrive_def onAbort_def)

lemma arrive_fields [simp]:
  "writes (arrive ab k st) = writes st" "eventCount (arrive ab k st) = eventCount st"
  by (simp_all add: arrive_def onAbort_def)

lemma stream_write_fields [simp]:
  "writes (stream_write c st) = writes st @ [c]" "eventCount (stream_write c st) = eventCount st"
  "aborted (stream_write c st) = aborted st" "rejected (stream_write c st) = rejected st"
  by (simp_all add: stream_write_def)

lemma catch_block_fields [simp]:
  "writes (catch_block x st) = writes st @ thrown_chunk (Some x)"
  "eventCount (catch_block x st) = eventCount st"
  by (simp_all add: catch_block_def thrown_chunk_def split: thrown.splits)

lemma stream_loop_finite:
  "\<exists>r. stream_loop (Suc (length es)) ab (gen_of es thrown) st = Some r
       \<and> writes r = writes st @ forwarded_texts es @ terminal es thrown
       \<and> eventCount r = eventCount st + consumed es"
proof (induction es arbitrary: st)
  case Nil
  then show ?case
    by (simp add: forwarded_texts_def terminal_def consumed_def thrown_chunk_def
        split: option.splits)
next
  case (Cons e es)
  let ?st1 = "arrive ab (eventCount st + 1) (st\<lparr>eventCount := eventCount st + 1\<rparr>)"
  show ?case
  proof (cases "truthy_val (errorCode e)")
    case (Some code)
    then show ?thesis
      by (simp add: forwarded_texts_def terminal_def consumed_def stops_def truthy_val_truthy)
  next
    case None
    note noerr = this
    show ?thesis
    proof (cases "truthy_val (first_text e)")
      case (Some tx)
      obtain r where r: "stream_loop (Suc (length es)) ab (gen_of es thrown) (stream_write tx ?st1) = Some r"
        "writes r = writes (stream_write tx ?st1) @ forwarded_texts es @ terminal es thrown"
        "eventCount r = eventCount (stream_write tx ?st1) + consumed es"
        using Cons.IH by blast
      have ns: "\<not> stops e" using noerr Some by (simp add: stops_def truthy_val_truthy)
      show ?thesis using r noerr Some ns
        by (simp add: forwarded_texts_def terminal_def consumed_def Let_def)
    next
      case None
      show ?thesis
      proof (cases "final e")
        case True
        then show ?thesis using noerr None
          by (simp add: forwarded_texts_def terminal_def consumed_def stops_def truthy_val_truthy
              Let_def)
      next
        case False
        obtain r where r: "stream_loop (Suc (length es)) ab (gen_of es thrown) ?st1 = Some r"
          "writes r = writes ?st1 @ forwarded_texts es @ terminal es thrown"
          "eventCount r = eventCount ?st1 + consumed es"
          using Cons.IH by blast
        have ns: "\<not> stops e" using noerr None False by (simp add: stops_def truthy_val_truthy)
        show ?thesis using r noerr None False ns
          by (simp add: forwarded_texts_def terminal_def consumed_def Let_def)
      qed
    qed
  qed
qed

lemma stream_loop_numeral:
  "stream_loop (numeral v) ab g st =
     (case g of
        Return \<Rightarrow> Some st
      | Throw x \<Rightarrow> Some (catch_block x st)
      | Yield e g' \<Rightarrow>
          (let st1 = arrive ab (eventCount st + 1) (st\<lparr>eventCount := eventCount st + 1\<rparr>)
           in case truthy_val (errorCode e) of
                Some code \<Rightarrow> Some (stream_write (adk_error_chunk code (errMsg e)) st1)
              | None \<Rightarrow>
                  (case truthy_val (first_text e) of
                     Some tx \<Rightarrow> stream_loop (pred_numeral v) ab g' (stream_write tx st1)
                   | None \<Rightarrow>
                       if final e then Some st1 else stream_loop (pred_numeral v) ab g' st1)))"
proof -
  have "stream_loop (numeral v) ab g st = stream_loop (Suc (pred_numeral v)) ab g st"
    by (simp only: numeral_eq_Suc)
  then show ?thesis
    by (simp only: stream_loop.simps)
qed

lemma stream_loop_mono:
  "stream_loop n ab g st = Some r \<Longrightarrow> stream_loop (n + k) ab g st = Some r"
proof (induction n arbitrary: g st)
  case 0
  then show ?case by simp
next
  case (Suc n)
  then show ?case
    by (cases g) (auto simp: Let_def split: option.splits if_splits)
qed

lemma stream_loop_forever:
  "\<not> stops e \<Longrightarrow> stream_loop n ab (forever e) st = None"
proof (induction n arbitrary: st)
  case 0
  then show ?case by simp
next
  case (Suc n)
  have "forever e = Yield e (forever e)" by (rule forever.code)
  then have "stream_loop (Suc n) ab (forever e) st = stream_loop (Suc n) ab (Yield e (forever e)) st"
    by simp
  also have "\<dots> = None"
    using Suc by (auto simp: stops_def truthy_val_truthy Let_def split: option.splits)
  finally show ?case .
qed

lemma stream_loop_abort_blind:
  "writes st = writes st' \<Longrightarrow> eventCount st = eventCount st' \<Longrightarrow>
   rel_option (\<lambda>a b. writes a = writes b \<and> eventCount a = eventCount b)
     (stream_loop n ab g st) (stream_loop n ab' g st')"
proof (induction n arbitrary: g st st')
  case 0
  then show ?case by simp
next
  case (Suc n)
  show ?case
  proof (cases g)
    case (Yield e g')
    let ?a = "arrive ab (eventCount st + 1) (st\<lparr>eventCount := eventCount st + 1\<rparr>)"
    let ?b = "arrive ab' (eventCount st' + 1) (st'\<lparr>eventCount := eventCount st' + 1\<rparr>)"
    have ab: "writes ?a = writes ?b" "eventCount ?a = eventCount ?b"
      using Suc.prems by simp_all
    have ih1: "rel_option (\<lambda>a b. writes a = writes b \<and> eventCount a = eventCount b)
        (stream_loop n ab g' ?a) (stream_loop n ab' g' ?b)"
      using ab by (rule Suc.IH)
    have ih2: "\<And>t. rel_option (\<lambda>a b. writes a = writes b \<and> eventCount a = eventCount b)
        (stream_loop n ab g' (stream_write t ?a)) (stream_loop n ab' g' (stream_write t ?b))"
      using ab by (intro Suc.IH) simp_all
    show ?thesis using Yield ab ih1 ih2
      by (simp add: Let_def split: option.splits)
  qed (use Suc.prems in simp_all)
qed

lemma terminal_cases:
  "terminal es thrown = []
   \<or> (\<exists>code msg. terminal es thrown = [adk_error_chunk code msg])
   \<or> (\<exists>msg. terminal es thrown = [exception_chunk msg])"
  by (auto simp: terminal_def thrown_chunk_def split: list.splits option.splits thrown.splits)

lemma tool_call_not_stops: "\<not> stops (adk_event (ToolCall n a))"
  by (simp add: stops_def truthy_def first_text_def)

lemma replicate_quiet:
  "\<not> stops e \<Longrightarrow> truthy_val (first_text e) = None \<Longrightarrow>
   forwarded_texts (replicate k e) = [] \<and> terminal (replicate k e) None = []
   \<and> consumed (replicate k e) = k"
  by (induction k) (auto simp: forwarded_texts_def terminal_def consumed_def thrown_chunk_def)

lemma rel_option_map_eq:
  "rel_option (\<lambda>a b. f a = f b \<and> h a = h b) x y \<Longrightarrow>
   map_option f x = map_option f y \<and> map_option h x = map_option h y
   \<and> (x = None \<longleftrightarrow> y = None)"
  by (cases x; cases y) simp_all

lemma default_ids:
  "userId r = None \<Longrightarrow> sessionId r = None \<Longrightarrow> triple_of r = default_triple"
  by (simp add: triple_of_def userId_of_def sessionId_of_def default_triple_def appName_def)

lemma default_triple_named: "snd (snd default_triple) \<noteq> []"
  by (simp add: default_triple_def)

lemma holds_session_state [simp]:
  "holds_session (s\<lparr>state := m\<rparr>) = holds_session s"
proof
  fix p show "holds_session (s\<lparr>state := m\<rparr>) p = holds_session s p"
    by (cases "(s, p)" rule: holds_session.cases) simp_all
qed

lemma list_all_update:
  "list_all P ps \<Longrightarrow> P x \<Longrightarrow> list_all P (ps[i := x])"
  using set_update_subset_insert [of ps i x] by (auto simp: list_all_iff)

lemma run_schedule_present:
  "sessions w t = Some s \<Longrightarrow> list_all (holds_session s) ps \<Longrightarrow>
   created t (fst (run_schedule t acts (w, ps))) = created t w
   \<and> sessions (fst (run_schedule t acts (w, ps))) t
       = Some (s\<lparr>state := apply_writes acts (state s)\<rparr>)
   \<and> list_all (holds_session s) (snd (run_schedule t acts (w, ps)))"
proof (induction acts arbitrary: w ps s)
  case Nil
  then show ?case by simp
next
  case (Cons act acts)
  show ?case
  proof (cases act)
    case (Advance i)
    show ?thesis
    proof (cases "i < length ps")
      case False
      then show ?thesis using Advance Cons.IH [OF Cons.prems] by simp
    next
      case True
      then have h: "holds_session s (ps ! i)"
        using Cons.prems(2) by (simp add: list_all_length)
      show ?thesis
      proof (cases "ps ! i")
        case AtGet
        have s1: "sessions (logged (GetSession t) w) t = Some s" using Cons.prems(1) by simp
        have l1: "list_all (holds_session s) (ps[i := Got (Inr s)])"
          using Cons.prems(2) by (rule list_all_update) simp
        show ?thesis
          using Cons.IH [OF s1 l1] Advance True AtGet Cons.prems(1)
          by (simp add: getSession_def)
      next
        case AtCreate
        then show ?thesis using h by simp
      next
        case (Got r)
        then have "ps[i := Got r] = ps" using True by (metis list_update_id)
        then show ?thesis
          using Cons.IH [OF Cons.prems] Advance True Got by simp
      qed
    qed
  next
    case (SetState k v)
    let ?s1 = "s\<lparr>state := (state s)(k \<mapsto> v)\<rparr>"
    let ?w1 = "w\<lparr>sessions := setState (sessions w) t k v\<rparr>"
    have s1: "sessions ?w1 t = Some ?s1" using Cons.prems(1) by (simp add: setState_def)
    have l1: "list_all (holds_session ?s1) ps" using Cons.prems(2) by simp
    have st: "?s1\<lparr>state := apply_writes acts (state ?s1)\<rparr>
        = s\<lparr>state := apply_writes (act # acts) (state s)\<rparr>"
      using SetState by simp
    have run: "run_schedule t (act # acts) (w, ps) = run_schedule t acts (?w1, ps)"
      using SetState by simp
    have cr: "created t ?w1 = created t w" by simp
    have l2: "list_all (holds_session s) (snd (run_schedule t acts (?w1, ps)))"
      using Cons.IH [OF s1 l1] by simp
    note ih = Cons.IH [OF s1 l1]
    show ?thesis
      unfolding run st [symmetric]
    proof (intro conjI)
      show "created t (fst (run_schedule t acts (?w1, ps))) = created t w"
        using ih [THEN conjunct1] cr by (rule trans)
      show "sessions (fst (run_schedule t acts (?w1, ps))) t
          = Some (?s1\<lparr>state := apply_writes acts (state ?s1)\<rparr>)"
        by (rule ih [THEN conjunct2, THEN conjunct1])
      show "list_all (holds_session s) (snd (run_schedule t acts (?w1, ps)))"
        by (rule l2)
    qed
  qed
qed

lemma arrive_rejected [simp]: "rejected (arrive ab k st) = rejected st"
  by (simp add: arrive_def onAbort_def)

lemma catch_block_rejected:
  "x \<noteq> Nullish \<Longrightarrow> rejected (catch_block x st) = rejected st"
  by (cases x) (simp_all add: catch_block_def)

lemma stream_loop_not_rejected:
  "thrown \<noteq> Some Nullish \<Longrightarrow> \<not> rejected st \<Longrightarrow>
   stream_loop n ab (gen_of es thrown) st = Some r \<Longrightarrow> \<not> rejected r"
proof (induction es arbitrary: n st)
  case Nil
  then show ?case
    by (cases n; cases thrown) (auto simp: catch_block_rejected)
next
  case (Cons e es)
  show ?case
  proof (cases n)
    case 0
    then show ?thesis using Cons.prems by simp
  next
    case (Suc m)
    let ?st1 = "arrive ab (eventCount st + 1) (st\<lparr>eventCount := eventCount st + 1\<rparr>)"
    have r1: "\<not> rejected ?st1" using Cons.prems(2) by simp
    have r2: "\<And>c. \<not> rejected (stream_write c ?st1)" using r1 by simp
    show ?thesis
      using Cons.prems(3) Suc r1 r2 Cons.IH [OF Cons.prems(1) r1] Cons.IH [OF Cons.prems(1) r2]
      by (auto simp: Let_def split: option.splits if_splits)
  qed
qed

lemma drive_trace:
  "trace (fst (drive cap reg evs d))
     = trace d @ List.map_filter step_of (handled cap (dispatch_count d) evs)"
proof (induction evs arbitrary: d)
  case Nil
  then show ?case by (simp add: List.map_filter_simps)
next
  case (Cons e evs)
  then show ?case by (cases e) (simp_all add: List.map_filter_simps)
qed

lemma handled_prefix: "\<exists>rest. evs = handled cap n evs @ rest"
proof (induction evs arbitrary: n)
  case Nil
  then show ?case by simp
next
  case (Cons e evs)
  then show ?case by (cases e) simp_all
qed

lemma drive_end: "snd (drive cap reg evs d) = turn_end_of cap (dispatch_count d) evs"
proof (induction evs arbitrary: d)
  case Nil
  then show ?case by simp
next
  case (Cons e evs)
  then show ?case by (cases e) simp_all
qed

lemma find_tool_same_interface:
  "list_all2 same_interface reg reg' \<Longrightarrow>
   rel_option same_interface (find_tool reg n) (find_tool reg' n)"
  unfolding find_tool_def
  by (induction reg reg' rule: list_all2_induct) (auto simp: same_interface_def)

lemma invoke_violation:
  assumes "list_all2 same_interface reg reg'" and "violates reg n a"
  shows "invoke reg n a st = \<lparr>tool_outcome = ToolError SchemaValidationError, state_after = st\<rparr>"
    and "invoke reg' n a st = \<lparr>tool_outcome = ToolError SchemaValidationError, state_after = st\<rparr>"
proof -
  obtain d where d: "find_tool reg n = Some d" "\<not> validate (tool_schema d) a"
    using assms(2) by (auto simp: violates_def split: option.splits)
  then show "invoke reg n a st
      = \<lparr>tool_outcome = ToolError SchemaValidationError, state_after = st\<rparr>"
    by (simp add: invoke_def)
  obtain d' where d': "find_tool reg' n = Some d'" "same_interface d d'"
    using find_tool_same_interface [OF assms(1), of n] d(1)
    by (auto simp: option_rel_Some1)
  then show "invoke reg' n a st
      = \<lparr>tool_outcome = ToolError SchemaValidationError, state_after = st\<rparr>"
    using d(2) by (simp add: invoke_def same_interface_def)
qed

lemma drive_violations_same:
  "list_all2 same_interface reg reg' \<Longrightarrow> list_all (call_violates reg) evs \<Longrightarrow>
   drive cap reg evs d = drive cap reg' evs d"
proof (induction evs arbitrary: d)
  case Nil
  then show ?case by simp
next
  case (Cons e evs)
  then have rest: "list_all (call_violates reg) evs" by simp
  note ih = Cons.IH [OF Cons.prems(1) rest]
  show ?case
  proof (cases e)
    case (ToolCall n a)
    then have v: "violates reg n a" using Cons.prems(2) by simp
    show ?thesis
      unfolding ToolCall drive.simps invoke_violation [OF Cons.prems(1) v]
      by (simp add: ih)
  qed (simp_all add: ih)
qed

lemma drive_violations_scratch:
  "list_all2 same_interface reg reg' \<Longrightarrow> list_all (call_violates reg) evs \<Longrightarrow>
   scratch (fst (drive cap reg evs d)) = scratch d"
proof (induction evs arbitrary: d)
  case Nil
  then show ?case by simp
next
  case (Cons e evs)
  then have rest: "list_all (call_violates reg) evs" by simp
  note ih = Cons.IH [OF Cons.prems(1) rest]
  show ?case
  proof (cases e)
    case (ToolCall n a)
    then have v: "violates reg n a" using Cons.prems(2) by simp
    show ?thesis
      unfolding ToolCall drive.simps invoke_violation [OF Cons.prems(1) v]
      by (simp add: ih)
  qed (simp_all add: ih)
qed

lemma invoke_error_keeps_state:
  "tool_outcome (invoke reg n a st) = ToolError err \<Longrightarrow> state_after (invoke reg n a st) = st"
  by (auto simp: invoke_def split: option.splits if_splits sum.splits)

lemma invoke_set_goal:
  "invoke sample_registry ''set_budget_goal'' goal_args st
     = \<lparr>tool_outcome = ToolResult ''goal stored'',
        state_after = st(''budgetGoals'' \<mapsto> ''dining'')\<rparr>"
  by (simp add: invoke_def find_tool_def sample_registry_def set_budget_goal_def goal_args_def
      validate_def field_ok_def)

lemma invoke_status:
  "invoke sample_registry ''calculate_budget_status'' [] st
     = (case st ''budgetGoals'' of
          None \<Rightarrow> \<lparr>tool_outcome = ToolError (ExecutionFailed ''no budget goal in the session''),
                    state_after = st\<rparr>
        | Some g \<Rightarrow> \<lparr>tool_outcome = ToolResult ''on track'',
                      state_after = st(''status'' \<mapsto> g)\<rparr>)"
  by (simp add: invoke_def find_tool_def sample_registry_def set_budget_goal_def
      calculate_budget_status_def validate_def split: option.splits)

section \<open>Session resolution\<close>




text \<open>
  Claim C2, as it stands, fails on the server: the resolve is two awaited calls, and
  after the lookup of one request has missed another request runs. With two requests
  for a triple that has no session, in the order in which their steps alternate, both
  miss and both create: there are two creations, not one.
\<close>

theorem C2_counterexample:
  "snd (run_schedule demo_triple [Advance 0] (empty_world, [AtGet, AtGet])) = [AtCreate, AtGet]
   \<and> snd (run_schedule demo_triple [Advance 0, Advance 1, Advance 0, Advance 1]
            (empty_world, [AtGet, AtGet]))
       = [Got (Inr (new_session demo_triple Map.empty)),
          Got (Inr (new_session demo_triple Map.empty))]
   \<and> created demo_triple
       (fst (run_schedule demo_triple [Advance 0, Advance 1, Advance 0, Advance 1]
          (empty_world, [AtGet, AtGet]))) = 2"
  by (simp add: empty_world_def demo_triple_def getSession_def createSession_def
      kept_under_def used_uuid_def created_def logged_def new_session_def)

text \<open>
  Claim C2, amended. The resolve of the server is a lookup followed, on a miss, by a
  creation: two steps of a request. For a triple that has a session, any number of
  requests interleaved in any order, and with writes to the state of the session among
  their steps, create nothing: every request that has asked holds that session, and the
  session keeps everything that was written. For a triple with a non-empty session id
  that has no session, resolves that run one after another, each to its end before the
  next starts, make exactly one creation, and every caller receives that session.
\<close>

theorem C2_existing_session_is_never_recreated:
  "resolve_step t (resolve_step t (w, AtGet)) = (fst (resolve w t), Got (snd (resolve w t)))
   \<and> (\<forall>s. sessions w t = Some s \<and> list_all (holds_session s) ps \<longrightarrow>
        created t (fst (run_schedule t acts (w, ps))) = created t w
        \<and> sessions (fst (run_schedule t acts (w, ps))) t
            = Some (s\<lparr>state := apply_writes acts (state s)\<rparr>)
        \<and> list_all (holds_session s) (snd (run_schedule t acts (w, ps))))
   \<and> (sessions w t = None \<and> snd (snd t) \<noteq> [] \<longrightarrow>
        created t (fst (resolve_all (Suc n) t w)) = created t w + 1
        \<and> snd (resolve_all (Suc n) t w) = replicate (Suc n) (Inr (new_session t Map.empty))
        \<and> sessions (fst (resolve_all (Suc n) t w)) = (sessions w)(t \<mapsto> new_session t Map.empty))"
  using resolve_steps [of t w] resolve_all_absent [of w t n] run_schedule_present [of w t _ ps acts]
  by blast

theorem C2_existing_session_witness:
  "sessions budget_world demo_triple = Some (new_session demo_triple [''budget'' \<mapsto> ''100''])
   \<and> list_all (holds_session (new_session demo_triple [''budget'' \<mapsto> ''100''])) [AtGet, AtGet]
   \<and> created demo_triple
       (fst (run_schedule demo_triple
          [Advance 0, SetState ''budget'' ''250'', Advance 1, Advance 0, Advance 1]
          (budget_world, [AtGet, AtGet]))) = 0
   \<and> getState
       (sessions (fst (run_schedule demo_triple
          [Advance 0, SetState ''budget'' ''250'', Advance 1, Advance 0, Advance 1]
          (budget_world, [AtGet, AtGet])))) demo_triple ''budget'' = Some ''250''
   \<and> created demo_triple (fst (resolve_all 3 demo_triple empty_world)) = 1
   \<and> snd (resolve_all 3 demo_triple empty_world)
       = [Inr (new_session demo_triple Map.empty), Inr (new_session demo_triple Map.empty),
          Inr (new_session demo_triple Map.empty)]"
proof -
  let ?s = "new_session demo_triple [''budget'' \<mapsto> ''100'']"
  let ?acts = "[Advance 0, SetState ''budget'' ''250'', Advance 1, Advance 0, Advance 1]"
  have a: "sessions budget_world demo_triple = Some ?s" by (simp add: budget_world_def)
  have b: "list_all (holds_session ?s) [AtGet, AtGet]" by simp
  have e: "sessions empty_world demo_triple = None \<and> snd (snd demo_triple) \<noteq> []"
    by (simp add: empty_world_def demo_triple_def)
  note inst1 = C2_existing_session_is_never_recreated
      [of demo_triple budget_world "[AtGet, AtGet]" ?acts 2]
  note inst2 = C2_existing_session_is_never_recreated
      [of demo_triple empty_world "[AtGet, AtGet]" ?acts 2]
  have c: "created demo_triple (fst (run_schedule demo_triple ?acts (budget_world, [AtGet, AtGet])))
      = created demo_triple budget_world"
    and d: "sessions (fst (run_schedule demo_triple ?acts (budget_world, [AtGet, AtGet]))) demo_triple
      = Some (?s\<lparr>state := apply_writes ?acts (state ?s)\<rparr>)"
    using inst1 a b by blast+
  have c': "created demo_triple (fst (run_schedule demo_triple ?acts (budget_world, [AtGet, AtGet]))) = 0"
    using c by (simp add: created_def budget_world_def)
  have d': "getState (sessions (fst (run_schedule demo_triple ?acts (budget_world, [AtGet, AtGet]))))
      demo_triple ''budget'' = Some ''250''"
    unfolding getState_def d by (simp add: new_session_def)
  have f: "created demo_triple (fst (resolve_all (Suc 2) demo_triple empty_world))
        = created demo_triple empty_world + 1"
    and g: "snd (resolve_all (Suc 2) demo_triple empty_world)
        = replicate (Suc 2) (Inr (new_session demo_triple Map.empty))"
    using inst2 e by blast+
  have f': "created demo_triple (fst (resolve_all 3 demo_triple empty_world)) = 1"
    using f by (simp add: created_def empty_world_def numeral_3_eq_3 del: resolve_all.simps)
  have g': "snd (resolve_all 3 demo_triple empty_world)
       = [Inr (new_session demo_triple Map.empty), Inr (new_session demo_triple Map.empty),
          Inr (new_session demo_triple Map.empty)]"
    using g by (simp add: numeral_3_eq_3 del: resolve_all.simps)
  from a b c' d' f' g' show ?thesis by blast
qed

section \<open>The chat handler\<close>

text \<open>
  Claim C3. A request whose message is missing (or empty) is answered with status 400
  and the body "Message is required"; the sessions and the log of calls to the session
  service and the runner are what they were, and no stream is opened.
\<close>

theorem C3_missing_message_rejected:
  "\<not> truthy (message req) \<Longrightarrow>
   chat ev w req = (w, Json 400 ''Message is required'')
   \<and> serve ev runAsync fuel ab w req = (w, Answered 400 ''Message is required'')"
  by (simp add: chat_def serve_def truthy_val_truthy)

theorem C3_missing_message_witness:
  "\<not> truthy (message (bare_request None))
   \<and> chat live_env budget_world (bare_request None)
       = (budget_world, Json 400 ''Message is required'')
   \<and> serve live_env (replay Return) 5 None budget_world (bare_request None)
       = (budget_world, Answered 400 ''Message is required'')"
  using C3_missing_message_rejected [of "bare_request None" live_env budget_world "replay Return" 5 None]
  by (simp add: bare_request_def truthy_def)

text \<open>
  Claim C9. In mock mode (the API key is DUMMY, or USE_MOCK is 1) a request with a
  non-empty message is answered by a stream of the three fixed chunks, whatever the
  message, the user id and the session id are, with or without an abort; the sessions
  and the log of calls are what they were, so neither the session service nor the runner
  has been called.
\<close>

theorem C9_mock_mode_fixed_output:
  "mockMode ev \<Longrightarrow> message req = Some m \<Longrightarrow> m \<noteq> [] \<Longrightarrow>
   chat ev w req = (w, StreamText (userId_of req) (sessionId_of req) m)
   \<and> (\<exists>r. serve ev runAsync fuel ab w req = (w, Streamed r)
          \<and> writes r = mock_chunks \<and> eventCount r = 0)
   \<and> length mock_chunks = 3"
proof -
  assume mock: "mockMode ev" and msg: "message req = Some m" "m \<noteq> []"
  have "chat ev w req = (w, StreamText (userId_of req) (sessionId_of req) m)"
    using mock msg by (simp add: chat_def session_for_def truthy_val_def)
  moreover have "\<exists>r. serve ev runAsync fuel ab w req = (w, Streamed r)
          \<and> writes r = mock_chunks \<and> eventCount r = 0"
    using mock msg
    by (simp add: serve_def chat_def session_for_def streamText_callback_def truthy_val_def
        mock_writes_writes mock_writes_eventCount init_turn_def)
  moreover have "length mock_chunks = 3"
    by (simp add: mock_chunks_def)
  ultimately show ?thesis by blast
qed

theorem C9_mock_mode_witness:
  "mockMode dummy_env
   \<and> serve dummy_env (replay Return) 0 None budget_world (bare_request (Some ''hello''))
       = (budget_world, Streamed \<lparr>writes = mock_chunks, eventCount = 0, aborted = False,
          rejected = False\<rparr>)
   \<and> serve dummy_env (replay Return) 0 None budget_world
        \<lparr>message = Some ''Set a budget'', userId = Some ''u2'', sessionId = Some ''s9''\<rparr>
       = (budget_world, Streamed \<lparr>writes = mock_chunks, eventCount = 0, aborted = False,
          rejected = False\<rparr>)"
  using C9_mock_mode_fixed_output [of dummy_env "bare_request (Some ''hello'')" "''hello''"
      budget_world "replay Return" 0 None]
  by (simp add: dummy_env_def mockMode_def bare_request_def serve_def chat_def session_for_def
      streamText_callback_def truthy_val_def init_turn_def mock_chunks_def stream_write_def
      arrive_def)

text \<open>
  Claim C10. A request that omits the user id gets \<open>default-user\<close>, and one that omits
  the session id gets \<open>default-session\<close>. Two requests that omit both address the same
  triple, and neither is rejected. Outside mock mode the first leaves a session at that
  triple, and the second, whatever the runner has written to that session meanwhile,
  is given that very session with its state and history and leaves the sessions as
  they are. In mock mode, where no session is kept, both run on the same session value.
\<close>

theorem C10_omitted_ids_default_and_share:
  "(userId r1 = None \<longrightarrow> userId_of r1 = ''default-user'')
   \<and> (sessionId r1 = None \<longrightarrow> sessionId_of r1 = ''default-session'')
   \<and> (userId r1 = None \<and> sessionId r1 = None \<and> userId r2 = None \<and> sessionId r2 = None \<longrightarrow>
        triple_of r1 = default_triple \<and> triple_of r2 = triple_of r1
        \<and> (\<forall>m1. message r1 = Some m1 \<and> m1 \<noteq> [] \<longrightarrow>
              snd (chat ev w r1) = StreamText ''default-user'' ''default-session'' m1
              \<and> (\<not> mockMode ev \<longrightarrow> sessions (fst (chat ev w r1)) default_triple \<noteq> None))
        \<and> (\<forall>w2 s m2. \<not> mockMode ev \<and> sessions w2 default_triple = Some s
                \<and> message r2 = Some m2 \<and> m2 \<noteq> [] \<longrightarrow>
              session_for ev w2 (triple_of r2) = (logged (GetSession default_triple) w2, Inr s)
              \<and> chat ev w2 r2
                  = (logged (GetSession default_triple) w2,
                     StreamText ''default-user'' ''default-session'' m2))
        \<and> (\<forall>w2. mockMode ev \<longrightarrow>
              session_for ev w2 (triple_of r2) = (w2, Inr (new_session default_triple Map.empty))
              \<and> snd (session_for ev w2 (triple_of r2)) = snd (session_for ev w (triple_of r1))))"
proof (intro conjI impI allI; (elim conjE)?)
  show "userId r1 = None \<Longrightarrow> userId_of r1 = ''default-user''"
    by (simp add: userId_of_def)
  show "sessionId r1 = None \<Longrightarrow> sessionId_of r1 = ''default-session''"
    by (simp add: sessionId_of_def)
next
  assume h: "userId r1 = None" "sessionId r1 = None" "userId r2 = None" "sessionId r2 = None"
  show "triple_of r1 = default_triple" using h by (simp add: default_ids)
  show "triple_of r2 = triple_of r1" using h by (simp add: default_ids)
next
  fix m1
  assume h: "userId r1 = None" "sessionId r1 = None" and m: "message r1 = Some m1" "m1 \<noteq> []"
  have t: "triple_of r1 = default_triple" using h by (rule default_ids)
  show "snd (chat ev w r1) = StreamText ''default-user'' ''default-session'' m1"
    using h m
    by (cases "sessions w default_triple")
       (simp_all add: chat_def truthy_val_def session_for_def t resolve_absent resolve_present default_triple_named
          userId_of_def sessionId_of_def)
  assume live: "\<not> mockMode ev"
  show "sessions (fst (chat ev w r1)) default_triple \<noteq> None"
    using h m live
    by (cases "sessions w default_triple")
       (simp_all add: chat_def truthy_val_def session_for_def t resolve_absent resolve_present default_triple_named)
next
  fix w2 :: world and s m2
  assume h: "userId r2 = None" "sessionId r2 = None" and live: "\<not> mockMode ev"
    and s: "sessions w2 default_triple = Some s" and m: "message r2 = Some m2" "m2 \<noteq> []"
  have t: "triple_of r2 = default_triple" using h by (rule default_ids)
  show "session_for ev w2 (triple_of r2) = (logged (GetSession default_triple) w2, Inr s)"
    using live s by (simp add: session_for_def t resolve_present)
  then show "chat ev w2 r2
      = (logged (GetSession default_triple) w2,
         StreamText ''default-user'' ''default-session'' m2)"
    using h m by (simp add: chat_def truthy_val_def userId_of_def sessionId_of_def)
next
  fix w2 :: world
  assume h: "userId r1 = None" "sessionId r1 = None" "userId r2 = None" "sessionId r2 = None"
    and mock: "mockMode ev"
  have t: "triple_of r1 = default_triple" "triple_of r2 = default_triple"
    using h by (simp_all add: default_ids)
  show "session_for ev w2 (triple_of r2) = (w2, Inr (new_session default_triple Map.empty))"
    using mock by (simp add: session_for_def t)
  show "snd (session_for ev w2 (triple_of r2)) = snd (session_for ev w (triple_of r1))"
    using mock by (simp add: session_for_def t)
qed

theorem C10_omitted_ids_witness:
  "triple_of (bare_request (Some ''hello'')) = default_triple
   \<and> snd (chat live_env empty_world (bare_request (Some ''hello'')))
       = StreamText ''default-user'' ''default-session'' ''hello''
   \<and> chat live_env default_world (bare_request (Some ''again''))
       = (logged (GetSession default_triple) default_world,
          StreamText ''default-user'' ''default-session'' ''again'')
   \<and> getState (sessions (fst (chat live_env default_world (bare_request (Some ''again'')))))
        default_triple ''budget'' = Some ''100''"
proof -
  have live: "\<not> mockMode live_env" by (simp add: mockMode_def live_env_def)
  have ids: "userId (bare_request (Some ''hello'')) = None"
    "sessionId (bare_request (Some ''hello'')) = None"
    "userId (bare_request (Some ''again'')) = None"
    "sessionId (bare_request (Some ''again'')) = None"
    "message (bare_request (Some ''hello'')) = Some ''hello''"
    "message (bare_request (Some ''again'')) = Some ''again''"
    by (simp_all add: bare_request_def)
  have s: "sessions default_world default_triple
      = Some (new_session default_triple [''budget'' \<mapsto> ''100''])"
    by (simp add: default_world_def)
  note inst = C10_omitted_ids_default_and_share
      [of "bare_request (Some ''hello'')" "bare_request (Some ''again'')" live_env empty_world]
  have a: "triple_of (bare_request (Some ''hello'')) = default_triple"
    using inst ids by blast
  have b: "snd (chat live_env empty_world (bare_request (Some ''hello'')))
       = StreamText ''default-user'' ''default-session'' ''hello''"
    using inst ids by simp
  have c: "chat live_env default_world (bare_request (Some ''again''))
       = (logged (GetSession default_triple) default_world,
          StreamText ''default-user'' ''default-session'' ''again'')"
    using inst ids live s by simp
  have d: "getState (sessions (fst (chat live_env default_world (bare_request (Some ''again'')))))
        default_triple ''budget'' = Some ''100''"
  proof -
    have "sessions (fst (chat live_env default_world (bare_request (Some ''again''))))
        = sessions default_world"
      by (simp add: c)
    then show ?thesis
      by (simp add: getState_def default_world_def new_session_def)
  qed
  from a b c d show ?thesis by blast
qed

section \<open>The stream callback\<close>

text \<open>
  Claim C4, as it stands, fails on the server. The chunk written for an error event of
  the runner is a newline, \<open>[ADK ERROR code] message\<close> and a newline, and the chunk
  written for an exception is a newline and \<open>[Error: message]\<close>, which has no code:
  neither is of the form \<open>[ERROR code] message\<close>. And when the generator throws
  \<open>null\<close> or \<open>undefined\<close>, the catch block fails on reading the message: nothing is
  written after the text already sent, and the exception leaves the callback.
\<close>

theorem C4_counterexample:
  "map_option writes
     (stream_loop 2 None (gen_of [adk_event (ErrorMarker ''429'' ''quota'')] None) init_turn)
     = Some [adk_error_chunk ''429'' ''quota'']
   \<and> adk_error_chunk ''429'' ''quota'' \<noteq> spec_error_chunk ''429'' ''quota''
   \<and> take 7 (adk_error_chunk ''429'' ''quota'') \<noteq> ''[ERROR ''
   \<and> map_option writes
       (stream_loop 2 None (gen_of [] (Some (HasMessage ''fetch failed''))) init_turn)
     = Some [exception_chunk ''fetch failed'']
   \<and> take 7 (exception_chunk ''fetch failed'') \<noteq> ''[ERROR ''
   \<and> stream_loop 2 None (gen_of [adk_event (Text ''Hi'')] (Some Nullish)) init_turn
     = Some \<lparr>writes = [''Hi''], eventCount = 1, aborted = False, rejected = True\<rparr>"
  by (simp add: stream_loop_numeral init_turn_def truthy_val_def errMsg_def arrive_def
      stream_write_def catch_block_def first_text_def adk_error_chunk_def spec_error_chunk_def
      exception_chunk_def)

text \<open>
  Claim C4, amended. For every turn whose generator ends (after the events \<open>es\<close>, by
  returning or by throwing a value other than \<open>null\<close> and \<open>undefined\<close>), with or
  without an abort, the callback ends without an exception of its own and has written,
  in order, the texts of the events before the break, followed by nothing (a clean end)
  or by exactly one error chunk: \<open>[ADK ERROR code] message\<close> between newlines for an
  error event, or a newline and \<open>[Error: message]\<close> for an exception.
\<close>

theorem C4_stream_ends_clean_or_one_error_chunk:
  "thrown \<noteq> Some Nullish \<Longrightarrow>
   \<exists>r. stream_loop (Suc (length es) + k) ab (gen_of es thrown) init_turn = Some r
       \<and> \<not> rejected r
       \<and> writes r = forwarded_texts es @ terminal es thrown
       \<and> (terminal es thrown = []
          \<or> (\<exists>code msg. terminal es thrown = [adk_error_chunk code msg])
          \<or> (\<exists>msg. terminal es thrown = [exception_chunk msg]))"
proof -
  assume nn: "thrown \<noteq> Some Nullish"
  obtain r where r: "stream_loop (Suc (length es)) ab (gen_of es thrown) init_turn = Some r"
    "writes r = writes init_turn @ forwarded_texts es @ terminal es thrown"
    using stream_loop_finite [of es ab thrown init_turn] by blast
  have "stream_loop (Suc (length es) + k) ab (gen_of es thrown) init_turn = Some r"
    using r(1) by (rule stream_loop_mono)
  moreover have "writes r = forwarded_texts es @ terminal es thrown"
    using r(2) by (simp add: init_turn_def)
  moreover have "\<not> rejected r"
    using nn _ r(1) by (rule stream_loop_not_rejected) (simp add: init_turn_def)
  ultimately show ?thesis using terminal_cases [of es thrown] by blast
qed

theorem C4_stream_ends_witness:
  "Some NoMessage \<noteq> Some Nullish
   \<and> map_option writes
     (stream_loop 3 None
        (gen_of [adk_event (Text ''Hi''), adk_event (Text ''there'')] (Some NoMessage)) init_turn)
     = Some (forwarded_texts [adk_event (Text ''Hi''), adk_event (Text ''there'')]
             @ terminal [adk_event (Text ''Hi''), adk_event (Text ''there'')] (Some NoMessage))
   \<and> forwarded_texts [adk_event (Text ''Hi''), adk_event (Text ''there'')] = [''Hi'', ''there'']
   \<and> terminal [adk_event (Text ''Hi''), adk_event (Text ''there'')] (Some NoMessage)
       = [exception_chunk ''undefined'']"
proof -
  let ?es = "[adk_event (Text ''Hi''), adk_event (Text ''there'')]"
  have n: "Some NoMessage \<noteq> Some Nullish" by simp
  obtain r where
    "stream_loop (Suc (length ?es) + 0) None (gen_of ?es (Some NoMessage)) init_turn = Some r"
    "writes r = forwarded_texts ?es @ terminal ?es (Some NoMessage)"
    using C4_stream_ends_clean_or_one_error_chunk [OF n, of ?es 0 None]
    by blast
  then have a: "map_option writes (stream_loop 3 None (gen_of ?es (Some NoMessage)) init_turn)
     = Some (forwarded_texts ?es @ terminal ?es (Some NoMessage))"
    by (simp add: numeral_3_eq_3 del: stream_loop.simps)
  have b: "forwarded_texts ?es = [''Hi'', ''there'']"
    by (simp add: forwarded_texts_def stops_def truthy_def truthy_val_def first_text_def)
  have c: "terminal ?es (Some NoMessage) = [exception_chunk ''undefined'']"
    by (simp add: terminal_def thrown_chunk_def stops_def truthy_def truthy_val_def first_text_def)
  from n a b c show ?thesis by blast
qed

text \<open>
  Claim C6, as it stands, fails on the server: with the abort signalled while the first
  of three text events is handled, the loop still takes all three events and calls
  \<open>stream.write\<close> for each of them.
\<close>

theorem C6_counterexample:
  "stream_loop 4 (Some 1)
     (gen_of [adk_event (Text ''a''), adk_event (Text ''b''), adk_event (Text ''c'')] None)
     init_turn
   = Some \<lparr>writes = [''a'', ''b'', ''c''], eventCount = 3, aborted = True,
          rejected = False\<rparr>"
  by (simp add: stream_loop_numeral init_turn_def truthy_val_def arrive_def onAbort_def
      stream_write_def first_text_def)

text \<open>
  Claim C6, amended. The abort of the caller is only logged: whenever it is signalled,
  the callback takes the same events, passes the same chunks to \<open>stream.write\<close> in the
  same order and ends (or does not end) as it does without the abort, and the runner is
  called in the same way. Whether a chunk written after the abort reaches the caller, and
  what the runner records in the history of the session, is not decided by the server.
\<close>

theorem C6_abort_is_not_observed:
  "map_option writes (stream_loop n ab g init_turn)
     = map_option writes (stream_loop n None g init_turn)
   \<and> map_option eventCount (stream_loop n ab g init_turn)
     = map_option eventCount (stream_loop n None g init_turn)
   \<and> map_option fst (streamText_callback ev runAsync n ab w uid sid msg)
     = map_option fst (streamText_callback ev runAsync n None w uid sid msg)"
proof -
  have rel: "\<And>g. rel_option (\<lambda>a b. writes a = writes b \<and> eventCount a = eventCount b)
      (stream_loop n ab g init_turn) (stream_loop n None g init_turn)"
    by (rule stream_loop_abort_blind) (rule refl)+
  have a: "map_option writes (stream_loop n ab g init_turn)
     = map_option writes (stream_loop n None g init_turn)"
    and b: "map_option eventCount (stream_loop n ab g init_turn)
     = map_option eventCount (stream_loop n None g init_turn)"
    using rel_option_map_eq [OF rel [of g]] by blast+
  have none: "stream_loop n ab (runAsync (sessions w) uid sid msg) init_turn = None
      \<longleftrightarrow> stream_loop n None (runAsync (sessions w) uid sid msg) init_turn = None"
    using rel_option_map_eq [OF rel [of "runAsync (sessions w) uid sid msg"]] by blast
  have c: "map_option fst (streamText_callback ev runAsync n ab w uid sid msg)
     = map_option fst (streamText_callback ev runAsync n None w uid sid msg)"
  proof (cases "mockMode ev")
    case True
    then show ?thesis by (simp add: streamText_callback_def)
  next
    case False
    show ?thesis
    proof (cases "stream_loop n ab (runAsync (sessions w) uid sid msg) init_turn")
      case None
      then show ?thesis using none False by (simp add: streamText_callback_def)
    next
      case (Some r)
      then obtain r' where
        "stream_loop n None (runAsync (sessions w) uid sid msg) init_turn = Some r'"
        using none
        by (cases "stream_loop n None (runAsync (sessions w) uid sid msg) init_turn") simp_all
      then show ?thesis using Some False by (simp add: streamText_callback_def)
    qed
  qed
  from a b c show ?thesis by blast
qed

theorem C6_abort_witness:
  "map_option writes (stream_loop 4 (Some 1)
     (gen_of [adk_event (Text ''a''), adk_event (Text ''b''), adk_event (Text ''c'')] None)
     init_turn)
   = map_option writes (stream_loop 4 None
     (gen_of [adk_event (Text ''a''), adk_event (Text ''b''), adk_event (Text ''c'')] None)
     init_turn)
   \<and> map_option writes (stream_loop 4 None
     (gen_of [adk_event (Text ''a''), adk_event (Text ''b''), adk_event (Text ''c'')] None)
     init_turn) = Some [''a'', ''b'', ''c'']"
proof -
  have a: "map_option writes (stream_loop 4 (Some 1)
     (gen_of [adk_event (Text ''a''), adk_event (Text ''b''), adk_event (Text ''c'')] None)
     init_turn)
   = map_option writes (stream_loop 4 None
     (gen_of [adk_event (Text ''a''), adk_event (Text ''b''), adk_event (Text ''c'')] None)
     init_turn)"
    using C6_abort_is_not_observed [of 4 "Some 1"
     "gen_of [adk_event (Text ''a''), adk_event (Text ''b''), adk_event (Text ''c'')] None"]
    by blast
  have b: "map_option writes (stream_loop 4 None
     (gen_of [adk_event (Text ''a''), adk_event (Text ''b''), adk_event (Text ''c'')] None)
     init_turn) = Some [''a'', ''b'', ''c'']"
    by (simp add: stream_loop_numeral init_turn_def truthy_val_def arrive_def stream_write_def
        first_text_def)
  from a b show ?thesis by blast
qed

text \<open>
  Claim C7, as it stands, fails on the server: its loop counts the events but has no
  ceiling, and the run configuration it passes to the runner holds the streaming mode
  only. With a runner that yields tool-call events for ever the loop is still running
  after fifty of them, and fifty tool-call events followed by the end of the sequence are
  all taken, with a clean end and no error chunk.
\<close>

theorem C7_counterexample:
  "stream_loop 50 None (forever tool_call_event) init_turn = None
   \<and> stream_loop 51 None (gen_of (replicate 50 tool_call_event) None) init_turn
       = Some \<lparr>writes = [], eventCount = 50, aborted = False,
            rejected = False\<rparr>"
proof -
  have ns: "\<not> stops tool_call_event"
    unfolding tool_call_event_def by (rule tool_call_not_stops)
  have nt: "truthy_val (first_text tool_call_event) = None"
    by (simp add: tool_call_event_def first_text_def truthy_val_def)
  have a: "stream_loop 50 None (forever tool_call_event) init_turn = None"
    using ns by (rule stream_loop_forever)
  have q: "\<And>k st. stream_loop (Suc k) None (gen_of (replicate k tool_call_event) None) st
      = Some (st\<lparr>eventCount := eventCount st + k\<rparr>)"
  proof -
    fix k show "\<And>st. stream_loop (Suc k) None (gen_of (replicate k tool_call_event) None) st
      = Some (st\<lparr>eventCount := eventCount st + k\<rparr>)"
    proof (induction k)
      case 0
      then show ?case by simp
    next
      case (Suc k)
      have "errorCode tool_call_event = None" "\<not> final tool_call_event"
        by (simp_all add: tool_call_event_def)
      then show ?case using nt Suc
        by (simp add: Let_def truthy_val_def arrive_def)
    qed
  qed
  have "stream_loop (Suc 50) None (gen_of (replicate 50 tool_call_event) None) init_turn
       = Some (init_turn\<lparr>eventCount := eventCount init_turn + 50\<rparr>)"
    by (rule q)
  moreover have "Suc 50 = 51" by simp
  ultimately have b: "stream_loop 51 None (gen_of (replicate 50 tool_call_event) None) init_turn
       = Some \<lparr>writes = [], eventCount = 50, aborted = False,
            rejected = False\<rparr>"
    by (simp add: init_turn_def del: stream_loop.simps)
  from a b show ?thesis by blast
qed

text \<open>
  Claim C7, amended. The loop of the server has no iteration ceiling of its own: it ends
  when the sequence of the runner ends, at an error event, at a final event without text,
  or at an exception. A sequence of tool-call events that never ends keeps it running
  whatever the fuel, and a sequence of \<open>k\<close> tool-call events that then ends is taken in
  exactly \<open>k\<close> iterations, with nothing written and no error.
\<close>

theorem C7_loop_has_no_ceiling:
  "stream_loop fuel ab (forever (adk_event (ToolCall n a))) st = None
   \<and> (\<exists>r. stream_loop (Suc k) ab (gen_of (replicate k (adk_event (ToolCall n a))) None) init_turn
            = Some r
          \<and> writes r = [] \<and> eventCount r = k)"
proof -
  let ?e = "adk_event (ToolCall n a)"
  have ns: "\<not> stops ?e" by (rule tool_call_not_stops)
  have nt: "truthy_val (first_text ?e) = None"
    by (simp add: first_text_def truthy_val_def)
  have len: "Suc (length (replicate k ?e)) = Suc k" by simp
  obtain r where r: "stream_loop (Suc (length (replicate k ?e))) ab
        (gen_of (replicate k ?e) None) init_turn = Some r"
    "writes r = writes init_turn @ forwarded_texts (replicate k ?e) @ terminal (replicate k ?e) None"
    "eventCount r = eventCount init_turn + consumed (replicate k ?e)"
    using stream_loop_finite [of "replicate k ?e" ab None init_turn]
    by blast
  have q: "forwarded_texts (replicate k ?e) = []" "terminal (replicate k ?e) None = []"
    "consumed (replicate k ?e) = k"
    using replicate_quiet [OF ns nt, of k] by blast+
  have w: "writes r = []" using r(2) q by (simp add: init_turn_def)
  have c: "eventCount r = k" using r(3) q by (simp add: init_turn_def)
  have run: "stream_loop (Suc k) ab (gen_of (replicate k ?e) None) init_turn = Some r"
    using r(1) unfolding len .
  have div: "stream_loop fuel ab (forever ?e) st = None"
    using ns by (rule stream_loop_forever)
  have "\<exists>r. stream_loop (Suc k) ab (gen_of (replicate k ?e) None) init_turn = Some r
          \<and> writes r = [] \<and> eventCount r = k"
    by (rule exI [of _ r]) (intro conjI run w c)
  with div show ?thesis by (rule conjI)
qed

theorem C7_no_ceiling_witness:
  "stream_loop 7 None (forever tool_call_event) init_turn = None
   \<and> map_option eventCount
       (stream_loop 4 None (gen_of [tool_call_event, tool_call_event, tool_call_event] None)
          init_turn) = Some 3"
proof -
  have a: "stream_loop 7 None (forever tool_call_event) init_turn = None"
    unfolding tool_call_event_def
    using C7_loop_has_no_ceiling [of 7 None "''analyze_transactions''" "[]" init_turn 0]
    by (rule conjunct1)
  have b: "map_option eventCount
       (stream_loop 4 None (gen_of [tool_call_event, tool_call_event, tool_call_event] None)
          init_turn) = Some 3"
    by (simp add: stream_loop_numeral tool_call_event_def init_turn_def truthy_val_def
        arrive_def first_text_def)
  from a b show ?thesis by blast
qed

section \<open>Turn Driver and Tool Registry\<close>

text \<open>
  Claim C5, as it stands, fails on the server: it reads the text of the first content
  part of an event only. Of an event with two text parts the second text is not written,
  and of an event whose text comes after a function call nothing is written.
\<close>

theorem C5_counterexample:
  "parts two_texts_event = Some [TextPart ''Hello, '', TextPart ''world'']
   \<and> parts text_after_call_event
       = Some [FunctionCall ''set_budget_goal'' [], TextPart ''Done.'']
   \<and> stream_loop 3 None (gen_of [two_texts_event, text_after_call_event] None) init_turn
       = Some \<lparr>writes = [''Hello, ''], eventCount = 2, aborted = False, rejected = False\<rparr>"
  by (simp add: stream_loop_numeral two_texts_event_def text_after_call_event_def init_turn_def
      truthy_val_def arrive_def stream_write_def first_text_def)

text \<open>
  Claim C5, amended. For every sequence of model events that ends, the server takes
  the events in arrival order and writes, unchanged and in that order, the non-empty
  text of the first content part of each event before the break (followed by the error
  chunk, if there is one); for the events text, tool call, tool call, text, final, each
  of one part, it takes all five and writes the two texts. The Turn Driver handles a
  prefix of the events in arrival order, so that its trace is the text emissions and the
  tool dispatches of that prefix in the order of arrival; with a ceiling of at least two
  it invokes, for those five events, the two tools in that order, the second on the
  state that the first has left, and the turn record appended to the history holds the
  concatenation of the two texts.
\<close>

theorem C5_events_in_arrival_order:
  "(\<exists>r. stream_loop (Suc (length es) + k) ab (gen_of es thrown) init_turn = Some r
        \<and> writes r = forwarded_texts es @ terminal es thrown
        \<and> eventCount r = consumed es)
   \<and> (a \<noteq> [] \<and> b \<noteq> [] \<longrightarrow>
        (\<exists>r. stream_loop (Suc 5) ab
               (gen_of (map adk_event [Text a, ToolCall n1 a1, ToolCall n2 a2, Text b, Final]) None)
               init_turn = Some r
             \<and> writes r = [a, b] \<and> eventCount r = 5))
   \<and> trace (fst (drive cap reg evs (init_driver st)))
       = List.map_filter step_of (handled cap 0 evs)
   \<and> (\<exists>rest. evs = handled cap 0 evs @ rest)
   \<and> (2 \<le> cap \<longrightarrow>
        (\<exists>d. run_turn cap reg sess msg [Text a, ToolCall n1 a1, ToolCall n2 a2, Text b, Final]
               = (sess\<lparr>turns := turns sess @
                          [\<lparr>user_message = msg, agent_response = a @ b,
                            tool_calls = [(n1, a1), (n2, a2)]\<rparr>],
                        session_scratch := scratch d\<rparr>, d, FinalState)
             \<and> trace d = [Emitted a, Dispatched n1 a1, Dispatched n2 a2, Emitted b]
             \<and> tool_context d
                 = [tool_outcome (invoke reg n1 a1 (session_scratch sess)),
                    tool_outcome
                      (invoke reg n2 a2 (state_after (invoke reg n1 a1 (session_scratch sess))))]
             \<and> scratch d
                 = state_after
                     (invoke reg n2 a2 (state_after (invoke reg n1 a1 (session_scratch sess))))))"
proof -
  obtain r where r: "stream_loop (Suc (length es)) ab (gen_of es thrown) init_turn = Some r"
    "writes r = writes init_turn @ forwarded_texts es @ terminal es thrown"
    "eventCount r = eventCount init_turn + consumed es"
    using stream_loop_finite [of es ab thrown init_turn] by blast
  have "stream_loop (Suc (length es) + k) ab (gen_of es thrown) init_turn = Some r"
    using r(1) by (rule stream_loop_mono)
  moreover have "writes r = forwarded_texts es @ terminal es thrown"
    using r(2) by (simp add: init_turn_def)
  moreover have "eventCount r = consumed es"
    using r(3) by (simp add: init_turn_def)
  ultimately have one: "\<exists>r. stream_loop (Suc (length es) + k) ab (gen_of es thrown) init_turn = Some r
        \<and> writes r = forwarded_texts es @ terminal es thrown
        \<and> eventCount r = consumed es"
    by blast
  let ?sc = "[Text a, ToolCall n1 a1, ToolCall n2 a2, Text b, Final]"
  have two: "a \<noteq> [] \<and> b \<noteq> [] \<longrightarrow>
          (\<exists>r. stream_loop (Suc 5) ab (gen_of (map adk_event ?sc) None) init_turn = Some r
               \<and> writes r = [a, b] \<and> eventCount r = 5)"
  proof
    assume ab: "a \<noteq> [] \<and> b \<noteq> []"
    obtain q where q: "stream_loop (Suc (length (map adk_event ?sc))) ab
          (gen_of (map adk_event ?sc) None) init_turn = Some q"
      "writes q = writes init_turn @ forwarded_texts (map adk_event ?sc)
                  @ terminal (map adk_event ?sc) None"
      "eventCount q = eventCount init_turn + consumed (map adk_event ?sc)"
      using stream_loop_finite [of "map adk_event ?sc" ab None init_turn] by blast
    have f: "forwarded_texts (map adk_event ?sc) = [a, b]"
      using ab by (simp add: forwarded_texts_def stops_def truthy_def truthy_val_def
          first_text_def List.map_filter_simps)
    have t: "terminal (map adk_event ?sc) None = []"
      by (simp add: terminal_def stops_def truthy_def truthy_val_def first_text_def)
    have c: "consumed (map adk_event ?sc) = 5"
      by (simp add: consumed_def stops_def truthy_def truthy_val_def first_text_def)
    have len: "Suc (length (map adk_event ?sc)) = Suc 5" by simp
    have "stream_loop (Suc 5) ab (gen_of (map adk_event ?sc) None) init_turn = Some q"
      using q(1) unfolding len .
    moreover have "writes q = [a, b]" using q(2) f t by (simp add: init_turn_def)
    moreover have "eventCount q = 5" using q(3) c by (simp add: init_turn_def)
    ultimately show "\<exists>r. stream_loop (Suc 5) ab (gen_of (map adk_event ?sc) None) init_turn = Some r
               \<and> writes r = [a, b] \<and> eventCount r = 5"
      by blast
  qed
  have three: "trace (fst (drive cap reg evs (init_driver st)))
       = List.map_filter step_of (handled cap 0 evs)"
    using drive_trace [of cap reg evs "init_driver st"] by (simp add: init_driver_def)
  have four: "\<exists>rest. evs = handled cap 0 evs @ rest" by (rule handled_prefix)
  have five: "2 \<le> cap \<longrightarrow>
        (\<exists>d. run_turn cap reg sess msg ?sc
               = (sess\<lparr>turns := turns sess @
                          [\<lparr>user_message = msg, agent_response = a @ b,
                            tool_calls = [(n1, a1), (n2, a2)]\<rparr>],
                        session_scratch := scratch d\<rparr>, d, FinalState)
             \<and> trace d = [Emitted a, Dispatched n1 a1, Dispatched n2 a2, Emitted b]
             \<and> tool_context d
                 = [tool_outcome (invoke reg n1 a1 (session_scratch sess)),
                    tool_outcome
                      (invoke reg n2 a2 (state_after (invoke reg n1 a1 (session_scratch sess))))]
             \<and> scratch d
                 = state_after
                     (invoke reg n2 a2 (state_after (invoke reg n1 a1 (session_scratch sess)))))"
  proof
    assume "2 \<le> cap"
    then have c: "\<not> cap \<le> 0" "\<not> cap \<le> Suc 0" by simp_all
    show "\<exists>d. run_turn cap reg sess msg ?sc
               = (sess\<lparr>turns := turns sess @
                          [\<lparr>user_message = msg, agent_response = a @ b,
                            tool_calls = [(n1, a1), (n2, a2)]\<rparr>],
                        session_scratch := scratch d\<rparr>, d, FinalState)
             \<and> trace d = [Emitted a, Dispatched n1 a1, Dispatched n2 a2, Emitted b]
             \<and> tool_context d
                 = [tool_outcome (invoke reg n1 a1 (session_scratch sess)),
                    tool_outcome
                      (invoke reg n2 a2 (state_after (invoke reg n1 a1 (session_scratch sess))))]
             \<and> scratch d
                 = state_after
                     (invoke reg n2 a2 (state_after (invoke reg n1 a1 (session_scratch sess))))"
      using c by (simp add: run_turn_def init_driver_def dispatches_def List.map_filter_simps)
  qed
  from one two three four five show ?thesis by blast
qed

theorem C5_events_witness:
  "(2::nat) \<le> 2
   \<and> map_option writes (stream_loop 6 None
        (gen_of (map adk_event [Text ''Your goal is set: '', ToolCall ''set_budget_goal'' goal_args,
           ToolCall ''calculate_budget_status'' [], Text ''on track.'', Final]) None) init_turn)
     = Some [''Your goal is set: '', ''on track.'']
   \<and> turns (fst (run_turn 2 sample_registry empty_session ''hello''
        [Text ''Your goal is set: '', ToolCall ''set_budget_goal'' goal_args,
         ToolCall ''calculate_budget_status'' [], Text ''on track.'', Final]))
     = [\<lparr>user_message = ''hello'', agent_response = ''Your goal is set: on track.'',
         tool_calls = [(''set_budget_goal'', goal_args), (''calculate_budget_status'', [])]\<rparr>]
   \<and> tool_context (fst (snd (run_turn 2 sample_registry empty_session ''hello''
        [Text ''Your goal is set: '', ToolCall ''set_budget_goal'' goal_args,
         ToolCall ''calculate_budget_status'' [], Text ''on track.'', Final])))
     = [ToolResult ''goal stored'', ToolResult ''on track'']
   \<and> tool_context (fst (snd (run_turn 2 sample_registry empty_session ''hello''
        [Text ''Your goal is set: '', ToolCall ''calculate_budget_status'' [],
         ToolCall ''set_budget_goal'' goal_args, Text ''on track.'', Final])))
     = [ToolError (ExecutionFailed ''no budget goal in the session''),
        ToolResult ''goal stored'']"
proof -
  let ?sc = "[Text ''Your goal is set: '', ToolCall ''set_budget_goal'' goal_args,
         ToolCall ''calculate_budget_status'' [], Text ''on track.'', Final]"
  let ?sw = "[Text ''Your goal is set: '', ToolCall ''calculate_budget_status'' [],
         ToolCall ''set_budget_goal'' goal_args, Text ''on track.'', Final]"
  have c: "(2::nat) \<le> 2" by simp
  have ne: "''Your goal is set: '' \<noteq> [] \<and> ''on track.'' \<noteq> []" by simp
  note inst = C5_events_in_arrival_order [of "[]" 0 None None "''Your goal is set: ''"
      "''on track.''" "''set_budget_goal''" goal_args "''calculate_budget_status''" "[]"
      2 sample_registry "[]" Map.empty empty_session "''hello''"]
  obtain r where r: "stream_loop (Suc 5) None (gen_of (map adk_event ?sc) None) init_turn = Some r"
    "writes r = [''Your goal is set: '', ''on track.'']"
    using inst ne by blast
  have "Suc 5 = 6" by simp
  then have a: "map_option writes (stream_loop 6 None (gen_of (map adk_event ?sc) None) init_turn)
     = Some [''Your goal is set: '', ''on track.'']"
    using r by (simp del: stream_loop.simps)
  obtain d where d: "run_turn 2 sample_registry empty_session ''hello'' ?sc
       = (empty_session\<lparr>turns := turns empty_session @
            [\<lparr>user_message = ''hello'',
              agent_response = ''Your goal is set: '' @ ''on track.'',
              tool_calls = [(''set_budget_goal'', goal_args), (''calculate_budget_status'', [])]\<rparr>],
            session_scratch := scratch d\<rparr>, d, FinalState)"
    "tool_context d
       = [tool_outcome (invoke sample_registry ''set_budget_goal'' goal_args
            (session_scratch empty_session)),
          tool_outcome (invoke sample_registry ''calculate_budget_status'' []
            (state_after (invoke sample_registry ''set_budget_goal'' goal_args
               (session_scratch empty_session))))]"
    using inst c by blast
  have t: "turns (fst (run_turn 2 sample_registry empty_session ''hello'' ?sc))
     = [\<lparr>user_message = ''hello'', agent_response = ''Your goal is set: on track.'',
         tool_calls = [(''set_budget_goal'', goal_args), (''calculate_budget_status'', [])]\<rparr>]"
    unfolding d(1) by (simp add: empty_session_def)
  have x: "tool_context (fst (snd (run_turn 2 sample_registry empty_session ''hello'' ?sc)))
     = [ToolResult ''goal stored'', ToolResult ''on track'']"
    unfolding d(1) using d(2) by (simp add: invoke_set_goal invoke_status)
  have y: "tool_context (fst (snd (run_turn 2 sample_registry empty_session ''hello'' ?sw)))
     = [ToolError (ExecutionFailed ''no budget goal in the session''),
        ToolResult ''goal stored'']"
    by (simp add: run_turn_def init_driver_def empty_session_def invoke_set_goal invoke_status)
  from c a t x y show ?thesis by blast
qed

text \<open>
  Claim C8. An invocation whose arguments violate the schema of the tool gives the
  tool error \<open>SchemaValidationError\<close> and leaves the state as it was, and it gives the
  same whatever the function of the tool is: the function has no part in it. Over a
  whole turn in which every tool call violates its schema, the turn is the same for
  every choice of tool functions and the state at its end is the state at its start.
  How a turn ends is decided by its events and the ceiling alone, so no failure of a
  tool ends it; after a tool error below the ceiling the driver appends the error to the
  context and goes on with the next event.
\<close>

theorem C8_tool_errors_stay_in_the_turn:
  "(list_all2 same_interface reg reg' \<and> violates reg n a \<longrightarrow>
      invoke reg n a st = invoke reg' n a st
      \<and> tool_outcome (invoke reg n a st) = ToolError SchemaValidationError
      \<and> state_after (invoke reg n a st) = st)
   \<and> (list_all2 same_interface reg reg' \<and> list_all (call_violates reg) evs \<longrightarrow>
        drive cap reg evs d = drive cap reg' evs d
        \<and> scratch (fst (drive cap reg evs d)) = scratch d)
   \<and> snd (drive cap reg evs d) = turn_end_of cap (dispatch_count d) evs
   \<and> (\<forall>err. tool_outcome (invoke reg n a (scratch d)) = ToolError err
          \<and> dispatch_count d < cap \<longrightarrow>
        drive cap reg (ToolCall n a # evs) d
          = drive cap reg evs
              (d\<lparr>trace := trace d @ [Dispatched n a],
                 tool_context := tool_context d @ [ToolError err],
                 dispatch_count := dispatch_count d + 1\<rparr>))"
proof (intro conjI impI allI)
  assume h: "list_all2 same_interface reg reg' \<and> violates reg n a"
  then have i: "invoke reg n a st
        = \<lparr>tool_outcome = ToolError SchemaValidationError, state_after = st\<rparr>"
      "invoke reg' n a st
        = \<lparr>tool_outcome = ToolError SchemaValidationError, state_after = st\<rparr>"
    using invoke_violation [of reg reg' n a st] by simp_all
  show "invoke reg n a st = invoke reg' n a st" using i by simp
  show "tool_outcome (invoke reg n a st) = ToolError SchemaValidationError" using i by simp
  show "state_after (invoke reg n a st) = st" using i by simp
next
  assume h: "list_all2 same_interface reg reg' \<and> list_all (call_violates reg) evs"
  then show "drive cap reg evs d = drive cap reg' evs d"
    using drive_violations_same [of reg reg' evs cap d] by blast
  from h show "scratch (fst (drive cap reg evs d)) = scratch d"
    using drive_violations_scratch [of reg reg' evs cap d] by blast
next
  show "snd (drive cap reg evs d) = turn_end_of cap (dispatch_count d) evs"
    by (rule drive_end)
next
  fix err
  assume e: "tool_outcome (invoke reg n a (scratch d)) = ToolError err \<and> dispatch_count d < cap"
  then have "state_after (invoke reg n a (scratch d)) = scratch d"
    using invoke_error_keeps_state by blast
  then show "drive cap reg (ToolCall n a # evs) d
          = drive cap reg evs
              (d\<lparr>trace := trace d @ [Dispatched n a],
                 tool_context := tool_context d @ [ToolError err],
                 dispatch_count := dispatch_count d + 1\<rparr>)"
    using e by simp
qed

theorem C8_tool_errors_witness:
  "list_all2 same_interface sample_registry other_bodies
   \<and> violates sample_registry ''set_budget_goal'' [(''category'', JNumber 5)]
   \<and> invoke other_bodies ''set_budget_goal'' [(''category'', JNumber 5)] Map.empty
       = \<lparr>tool_outcome = ToolError SchemaValidationError, state_after = Map.empty\<rparr>
   \<and> invoke other_bodies ''set_budget_goal'' goal_args Map.empty
       = \<lparr>tool_outcome = ToolResult ''ran'',
          state_after = [''ran'' \<mapsto> ''set_budget_goal'']\<rparr>
   \<and> tool_outcome (invoke sample_registry ''calculate_budget_status'' [] Map.empty)
       = ToolError (ExecutionFailed ''no budget goal in the session'')
   \<and> snd (drive 3 sample_registry
        [ToolCall ''set_budget_goal'' [(''category'', JNumber 5)],
         ToolCall ''calculate_budget_status'' [], Text ''Sorry.'', Final]
        (init_driver Map.empty)) = FinalState"
proof -
  have si: "list_all2 same_interface sample_registry other_bodies"
    by (simp add: sample_registry_def other_bodies_def same_interface_def)
  have v: "violates sample_registry ''set_budget_goal'' [(''category'', JNumber 5)]"
    by (simp add: violates_def find_tool_def sample_registry_def set_budget_goal_def
        validate_def field_ok_def)
  note inst = C8_tool_errors_stay_in_the_turn
      [of sample_registry other_bodies "''set_budget_goal''" "[(''category'', JNumber 5)]"
        Map.empty
        "[ToolCall ''set_budget_goal'' [(''category'', JNumber 5)],
          ToolCall ''calculate_budget_status'' [], Text ''Sorry.'', Final]"
        3 "init_driver Map.empty"]
  have a: "invoke other_bodies ''set_budget_goal'' [(''category'', JNumber 5)] Map.empty
       = \<lparr>tool_outcome = ToolError SchemaValidationError, state_after = Map.empty\<rparr>"
  proof -
    have "invoke sample_registry ''set_budget_goal'' [(''category'', JNumber 5)] Map.empty
        = invoke other_bodies ''set_budget_goal'' [(''category'', JNumber 5)] Map.empty"
      and "tool_outcome
          (invoke sample_registry ''set_budget_goal'' [(''category'', JNumber 5)] Map.empty)
        = ToolError SchemaValidationError"
      and "state_after
          (invoke sample_registry ''set_budget_goal'' [(''category'', JNumber 5)] Map.empty)
        = Map.empty"
      using inst si v by blast+
    then show ?thesis by (cases "invoke other_bodies ''set_budget_goal''
        [(''category'', JNumber 5)] Map.empty") simp
  qed
  have b: "invoke other_bodies ''set_budget_goal'' goal_args Map.empty
       = \<lparr>tool_outcome = ToolResult ''ran'',
          state_after = [''ran'' \<mapsto> ''set_budget_goal'']\<rparr>"
    by (simp add: invoke_def find_tool_def other_bodies_def set_budget_goal_def goal_args_def
        validate_def field_ok_def)
  have c: "tool_outcome (invoke sample_registry ''calculate_budget_status'' [] Map.empty)
       = ToolError (ExecutionFailed ''no budget goal in the session'')"
    by (simp add: invoke_def find_tool_def sample_registry_def set_budget_goal_def
        calculate_budget_status_def validate_def)
  have e: "snd (drive 3 sample_registry
        [ToolCall ''set_budget_goal'' [(''category'', JNumber 5)],
         ToolCall ''calculate_budget_status'' [], Text ''Sorry.'', Final]
        (init_driver Map.empty)) = FinalState"
    using inst by (simp add: init_driver_def)
  from si v a b c e show ?thesis by blast
qed

end
